theory Spec2Isabelle
  imports Main
begin

section \<open>Git worktree creation with sync of ignored files (worktree.py)\<close>

text \<open>
  The script creates a git worktree and copies into it the files of the source
  repository that git ignores. Its pure parts (ignore-file parsing, blacklist test, the
  directory walk, the common-config lookup) are embedded as HOL functions; its effects
  (git subprocesses, file copies, printed messages, removal of the worktree) are embedded
  as functions over an explicit description of the outside world that return the list of
  events they cause.

  Conventions of the embedding:
  \<^item> a path below the repository root is the list of its components;
    \<open>root_path / filename\<close> is \<open>rel @ [filename]\<close>;
  \<^item> \<open>fnmatch.fnmatch\<close> belongs to the Python library, not to the script: every
    function that calls it takes the matcher as its first argument \<open>fnm\<close>, applied as
    \<open>fnm name pattern\<close>;
  \<^item> \<open>Path.stat()\<close> is the function \<open>stat_size\<close> of the world, \<open>None\<close> when it raises
    \<open>OSError\<close>;
  \<^item> \<open>Path.exists()\<close> and \<open>Path.is_file()\<close> return a boolean or raise: pathlib re-raises
    every \<open>OSError\<close> whose errno is not ENOENT, ENOTDIR, EBADF or ELOOP (for instance
    ENAMETOOLONG, or EACCES on an unsearchable directory). So
    \<open>worktree_path.exists()\<close> at step 4 is \<open>path_exists\<close> with a result in \<open>exn + bool\<close>,
    the two tests of cleanup\_on\_failure can raise (\<open>cleanup_exists1\<close>,
    \<open>cleanup_exists2\<close>), and \<open>config_path.exists() and config_path.is_file()\<close> has the
    outcome \<open>Probe_error\<close>; the test of the ignore file at the repository root is taken
    to return (\<open>gitignore\<close> is \<open>Absent\<close> or not);
  \<^item> printing is taken to succeed, except for the \<open>print_warn\<close> of cleanup\_on\_failure
    (\<open>cleanup_warn\<close>), which is outside the \<open>try\<close> blocks of that function;
  \<^item> strings are lists of 8-bit characters; \<open>str.strip()\<close> removes the ASCII white space.
\<close>

subsection \<open>Constants\<close>

type_synonym path = "string list"

definition MAX_FILE_SIZE_BYTES :: nat where
  "MAX_FILE_SIZE_BYTES = 10 * 1024 * 1024"

definition BLACKLIST :: "string list" where
  "BLACKLIST =
    [''node_modules'', ''.venv'', ''venv'', ''__pycache__'', ''.cache'', ''dist'', ''build'',
     ''.git'', ''.tox'', ''.pytest_cache'', ''.mypy_cache'', ''coverage'', ''.next'', ''.nuxt'',
     ''vendor'', ''.terraform'', ''target'', ''.gradle'', ''.m2'', ''*.egg-info'']"

definition COMMON_CONFIGS :: "string list" where
  "COMMON_CONFIGS =
    [''.env'', ''.env.local'', ''.env.development'', ''.env.development.local'', ''.env.test'',
     ''.env.test.local'', ''.env.production.local'', ''.claude/settings.local.json'',
     ''config/local.yaml'', ''config/local.yml'', ''config/local.json'']"

subsection \<open>Strings and paths\<close>

definition is_space :: "char \<Rightarrow> bool" where
  "is_space c = (let n = (of_char c :: nat) in (9 \<le> n \<and> n \<le> 13) \<or> (28 \<le> n \<and> n \<le> 32))"

definition strip :: "string \<Rightarrow> string" where
  "strip s = rev (dropWhile is_space (rev (dropWhile is_space s)))"

definition rstrip_slash :: "string \<Rightarrow> string" where
  "rstrip_slash s = rev (dropWhile (\<lambda>c. c = CHR ''/'') (rev s))"

definition startswith :: "string \<Rightarrow> char \<Rightarrow> bool" where
  "startswith s c = (case s of [] \<Rightarrow> False | x # _ \<Rightarrow> x = c)"

fun has_double_star :: "string \<Rightarrow> bool" where
  "has_double_star (a # b # cs) = ((a = CHR ''*'' \<and> b = CHR ''*'') \<or> has_double_star (b # cs))"
| "has_double_star _ = False"

text \<open>\<open>source_dir / config\<close>: pathlib splits the joined string at every \<open>/\<close>.\<close>

fun path_parts_acc :: "string \<Rightarrow> string \<Rightarrow> path" where
  "path_parts_acc cur [] = [rev cur]"
| "path_parts_acc cur (c # cs) =
     (if c = CHR ''/'' then rev cur # path_parts_acc [] cs else path_parts_acc (c # cur) cs)"

definition path_parts :: "string \<Rightarrow> path" where
  "path_parts s = filter (\<lambda>p. p \<noteq> []) (path_parts_acc [] s)"

subsection \<open>Ignore-file parsing (find\_git\_ignored\_files, lines 261--275)\<close>

text \<open>One pass of the loop \<open>for line in f\<close>: \<open>None\<close> is \<open>continue\<close>, \<open>Some p\<close> is
  \<open>patterns.append(p)\<close>.\<close>

definition parse_line :: "string \<Rightarrow> string option" where
  "parse_line raw =
     (let line = strip raw in
      if line = [] \<or> startswith line (CHR ''#'') \<or> startswith line (CHR ''!'') then None
      else
        let line = rstrip_slash line in
        if CHR ''/'' \<in> set line \<or> CHR 0x5C \<in> set line \<or> has_double_star line then None
        else Some line)"

fun read_patterns :: "string list \<Rightarrow> string list" where
  "read_patterns [] = []"
| "read_patterns (raw # rest) =
     (case parse_line raw of None \<Rightarrow> read_patterns rest | Some p \<Rightarrow> p # read_patterns rest)"

text \<open>The parser as section 4.3 of the specification words it: one trailing path separator
  is stripped, and a line that still contains a separator or \<open>**\<close> is skipped.\<close>

definition strip_one_trailing_slash :: "string \<Rightarrow> string" where
  "strip_one_trailing_slash s = (if s \<noteq> [] \<and> last s = CHR ''/'' then butlast s else s)"

definition spec_parse_line :: "string \<Rightarrow> string option" where
  "spec_parse_line raw =
     (let line = strip raw in
      if line = [] \<or> startswith line (CHR ''#'') \<or> startswith line (CHR ''!'') then None
      else
        let line = strip_one_trailing_slash line in
        if CHR ''/'' \<in> set line \<or> CHR 0x5C \<in> set line \<or> has_double_star line then None
        else Some line)"

fun spec_read_patterns :: "string list \<Rightarrow> string list" where
  "spec_read_patterns [] = []"
| "spec_read_patterns (raw # rest) =
     (case spec_parse_line raw of None \<Rightarrow> spec_read_patterns rest
      | Some p \<Rightarrow> p # spec_read_patterns rest)"

subsection \<open>Blacklist test (is\_blacklisted)\<close>

definition is_blacklisted :: "(string \<Rightarrow> string \<Rightarrow> bool) \<Rightarrow> string \<Rightarrow> bool" where
  "is_blacklisted fnm path_part =
     (if path_part \<in> set BLACKLIST then True
      else list_ex (\<lambda>pattern. CHR ''*'' \<in> set pattern \<and> fnm path_part pattern) BLACKLIST)"

subsection \<open>The source tree and the directory walk\<close>

text \<open>What \<open>os.walk\<close> sees of a directory: its entries in listing order. \<open>DirLink\<close> is an
  entry that \<open>os.walk\<close> lists among \<open>dirs\<close> and does not enter (a symbolic link to a
  directory, \<open>followlinks\<close> being off).\<close>

datatype fsnode = File string | Dir string "fsnode list" | DirLink string

datatype msg =
    Scanning
  | Unreadable_gitignore
  | Skipping_large_file path nat
  | Failed_to_copy path
  | Copied_line path
  | Cleaning_up
  | Not_a_git_repository
  | Invalid_branch_name string
  | Path_already_exists string
  | Suggestion string
  | Branch_does_not_exist string
  | Worktree_created
  | Command_error
  | Cancelled_by_user
  | Unexpected_error
  | Summary nat nat
  | No_files_copied
  | Excluded_dirs "string set"

record scan_state =
  files_to_copy :: "path list"
  skipped_dirs :: "string set"
  seen_files :: "path set"
  printed :: "msg list"

fun dirs_of :: "fsnode list \<Rightarrow> string list" where
  "dirs_of [] = []"
| "dirs_of (File f # es) = dirs_of es"
| "dirs_of (Dir d cs # es) = d # dirs_of es"
| "dirs_of (DirLink d # es) = d # dirs_of es"

fun files_of :: "fsnode list \<Rightarrow> string list" where
  "files_of [] = []"
| "files_of (File f # es) = f # files_of es"
| "files_of (Dir d cs # es) = files_of es"
| "files_of (DirLink d # es) = files_of es"

text \<open>Lines 286--292: every blacklisted name of \<open>dirs\<close> goes to \<open>skipped_dirs\<close> (and is
  removed from \<open>dirs\<close>, which \<open>walk_dirs\<close> below accounts for).\<close>

fun filter_dirs :: "(string \<Rightarrow> string \<Rightarrow> bool) \<Rightarrow> string list \<Rightarrow> scan_state \<Rightarrow> scan_state" where
  "filter_dirs fnm [] st = st"
| "filter_dirs fnm (d # ds) st =
     filter_dirs fnm ds
       (if is_blacklisted fnm d then st\<lparr>skipped_dirs := insert d (skipped_dirs st)\<rparr> else st)"

text \<open>Lines 297--318 for one \<open>filename\<close>: the loop over the patterns runs its body at the
  first pattern that matches and leaves by \<open>break\<close> on every path through it.\<close>

definition check_file ::
  "(string \<Rightarrow> string \<Rightarrow> bool) \<Rightarrow> (path \<Rightarrow> nat option) \<Rightarrow> string list \<Rightarrow> path \<Rightarrow> string
     \<Rightarrow> scan_state \<Rightarrow> scan_state" where
  "check_file fnm stat_size patterns rel filename st =
     (if list_ex (\<lambda>pattern. fnm filename pattern) patterns then
        (let file_path = rel @ [filename] in
         if file_path \<in> seen_files st then st
         else
           let st = st\<lparr>seen_files := insert file_path (seen_files st)\<rparr> in
           case stat_size file_path of
             None \<Rightarrow> st
           | Some sz \<Rightarrow>
               if sz > MAX_FILE_SIZE_BYTES
               then st\<lparr>printed := printed st @ [Skipping_large_file file_path sz]\<rparr>
               else st\<lparr>files_to_copy := files_to_copy st @ [file_path]\<rparr>)
      else st)"

fun check_files ::
  "(string \<Rightarrow> string \<Rightarrow> bool) \<Rightarrow> (path \<Rightarrow> nat option) \<Rightarrow> string list \<Rightarrow> path \<Rightarrow> string list
     \<Rightarrow> scan_state \<Rightarrow> scan_state" where
  "check_files fnm stat_size patterns rel [] st = st"
| "check_files fnm stat_size patterns rel (filename # fs) st =
     check_files fnm stat_size patterns rel fs (check_file fnm stat_size patterns rel filename st)"

text \<open>\<open>for root, dirs, files in os.walk(source_dir)\<close>, top-down: \<open>walk\<close> is one directory
  (the loop body, then the descent), \<open>walk_dirs\<close> the descent into the directories left in
  \<open>dirs\<close>, in order.\<close>

fun walk ::
  "(string \<Rightarrow> string \<Rightarrow> bool) \<Rightarrow> (path \<Rightarrow> nat option) \<Rightarrow> string list \<Rightarrow> path \<Rightarrow> fsnode list
     \<Rightarrow> scan_state \<Rightarrow> scan_state"
and walk_dirs ::
  "(string \<Rightarrow> string \<Rightarrow> bool) \<Rightarrow> (path \<Rightarrow> nat option) \<Rightarrow> string list \<Rightarrow> path \<Rightarrow> fsnode list
     \<Rightarrow> scan_state \<Rightarrow> scan_state" where
  "walk fnm stat_size patterns rel entries st =
     walk_dirs fnm stat_size patterns rel entries
       (check_files fnm stat_size patterns rel (files_of entries)
          (filter_dirs fnm (dirs_of entries) st))"
| "walk_dirs fnm stat_size patterns rel [] st = st"
| "walk_dirs fnm stat_size patterns rel (File f # es) st =
     walk_dirs fnm stat_size patterns rel es st"
| "walk_dirs fnm stat_size patterns rel (DirLink d # es) st =
     walk_dirs fnm stat_size patterns rel es st"
| "walk_dirs fnm stat_size patterns rel (Dir d cs # es) st =
     walk_dirs fnm stat_size patterns rel es
       (if is_blacklisted fnm d then st else walk fnm stat_size patterns (rel @ [d]) cs st)"


subsection \<open>The outside world\<close>

datatype exn = CalledProcessError | KeyboardInterrupt | OtherError

datatype gitignore_file = Absent | Unreadable | Lines "string list"

datatype probe = Regular_file | Not_a_file | Probe_error

datatype copy_outcome = Copy_ok | Copy_exception | Copy_interrupt

text \<open>Everything the script reads from its environment.
  \<^item> \<open>git args\<close>: exit code and captured output of \<open>git args\<close>; \<open>git_present\<close>: the
    binary is found.
  \<^item> \<open>resolve s\<close>: the components of \<open>Path(s).resolve()\<close>.
  \<^item> \<open>now\<close>, \<open>car\<close>: \<open>int(time.time())\<close> and the index \<open>random.choice\<close> draws.
  \<^item> \<open>path_exists\<close>: \<open>worktree_path.exists()\<close> at step 4: \<open>Inl e\<close> it raises \<open>e\<close>.
  \<^item> \<open>add_leaves_dir\<close>: a failed \<open>git worktree add\<close> leaves a partial directory.
  \<^item> \<open>gitignore\<close>: the ignore file (\<open>Unreadable\<close>: opening or reading it raises an
    \<open>Exception\<close>), \<open>tree\<close>: the entries of the repository root.
  \<^item> \<open>probe p\<close>: \<open>exists() and is_file()\<close> of \<open>source_dir / p\<close>.
  \<^item> \<open>copy2 p\<close>: what \<open>mkdir\<close> and \<open>shutil.copy2\<close> do for the file \<open>p\<close>:
    succeed, raise an \<open>Exception\<close>, or be interrupted (\<open>KeyboardInterrupt\<close>).
  \<^item> \<open>remove_cmd\<close>: \<open>subprocess.run\<close> of \<open>git worktree remove --force\<close>: \<open>Inl e\<close> it
    raises \<open>e\<close>, \<open>Inr gone\<close> it returns and the directory is gone or not.
  \<^item> \<open>rmtree\<close>: \<open>shutil.rmtree\<close>: \<open>Some e\<close> it raises \<open>e\<close> (the directory stays),
    \<open>None\<close> it deletes the directory.
  \<^item> \<open>cleanup_exists1\<close>, \<open>cleanup_exists2\<close>: the exception that the first and the
    second \<open>worktree_path.exists()\<close> of cleanup\_on\_failure raise, if any; when they
    return, they return the state of the directory.
  \<^item> \<open>cleanup_warn\<close>: the exception that the \<open>print_warn\<close> of cleanup\_on\_failure
    raises, if any (a closed standard output, a path that cannot be encoded).\<close>

record world =
  git_present :: bool
  git :: "string list \<Rightarrow> nat \<times> string"
  resolve :: "string \<Rightarrow> path"
  now :: nat
  car :: nat
  path_exists :: "path \<Rightarrow> exn + bool"
  add_leaves_dir :: bool
  gitignore :: gitignore_file
  tree :: "fsnode list"
  stat_size :: "path \<Rightarrow> nat option"
  probe :: "path \<Rightarrow> probe"
  copy2 :: "path \<Rightarrow> copy_outcome"
  remove_cmd :: "exn + bool"
  rmtree :: "exn option"
  cleanup_exists1 :: "exn option"
  cleanup_warn :: "exn option"
  cleanup_exists2 :: "exn option"

datatype event = Git "string list" | Print msg | Copy_file path | Rmtree string

subsection \<open>find\_git\_ignored\_files and find\_common\_config\_files\<close>

definition find_git_ignored_files ::
  "(string \<Rightarrow> string \<Rightarrow> bool) \<Rightarrow> world \<Rightarrow> path list \<times> string set \<times> msg list" where
  "find_git_ignored_files fnm w =
     (case gitignore w of
        Absent \<Rightarrow> ([], {}, [])
      | Unreadable \<Rightarrow> ([], {}, [Scanning, Unreadable_gitignore])
      | Lines ls \<Rightarrow>
          (let st = walk fnm (stat_size w) (read_patterns ls) [] (tree w)
                      \<lparr>files_to_copy = [], skipped_dirs = {}, seen_files = {},
                       printed = [Scanning]\<rparr>
           in (files_to_copy st, skipped_dirs st, printed st)))"

text \<open>The loop of find\_common\_config\_files; \<open>config_files\<close> and \<open>seen_files\<close> are its
  two mutable variables. A probe that raises ends the loop with the exception.\<close>

fun find_common_config_files_loop ::
  "(path \<Rightarrow> probe) \<Rightarrow> string list \<Rightarrow> path list \<Rightarrow> path set \<Rightarrow> exn + (path list \<times> path set)" where
  "find_common_config_files_loop pr [] config_files seen = Inr (config_files, seen)"
| "find_common_config_files_loop pr (config # rest) config_files seen =
     (let config_path = path_parts config in
      case pr config_path of
        Probe_error \<Rightarrow> Inl OtherError
      | Not_a_file \<Rightarrow> find_common_config_files_loop pr rest config_files seen
      | Regular_file \<Rightarrow>
          if config_path \<notin> seen
          then find_common_config_files_loop pr rest (config_files @ [config_path])
                 (insert config_path seen)
          else find_common_config_files_loop pr rest config_files seen)"

definition find_common_config_files :: "world \<Rightarrow> path set \<Rightarrow> exn + (path list \<times> path set)" where
  "find_common_config_files w seen = find_common_config_files_loop (probe w) COMMON_CONFIGS [] seen"

subsection \<open>copy\_file\_with\_metadata and cleanup\_on\_failure\<close>

text \<open>\<open>try: mkdir; copy2; return True  except Exception: print_warn; return False\<close>.
  \<open>KeyboardInterrupt\<close> is no \<open>Exception\<close> and leaves the function.\<close>

definition copy_file_with_metadata :: "world \<Rightarrow> path \<Rightarrow> exn + (bool \<times> event list)" where
  "copy_file_with_metadata w src =
     (case copy2 w src of
        Copy_ok \<Rightarrow> Inr (True, [Copy_file src])
      | Copy_exception \<Rightarrow> Inr (False, [Print (Failed_to_copy src)])
      | Copy_interrupt \<Rightarrow> Inl KeyboardInterrupt)"

definition path_str :: "path \<Rightarrow> string" where
  "path_str p = concat (map (\<lambda>c. CHR ''/'' # c) p)"

text \<open>The state is whether the worktree directory exists. The result is the exception
  that leaves the function, if any, the state afterwards and the events. Only the two
  sub-steps sit in a \<open>try\<close> with a bare \<open>except: pass\<close>; the two existence tests and
  the warning are outside.\<close>

definition cleanup_on_failure ::
  "world \<Rightarrow> path \<Rightarrow> bool \<Rightarrow> exn option \<times> bool \<times> event list" where
  "cleanup_on_failure w worktree_path on_disk =
     (case cleanup_exists1 w of
        Some e \<Rightarrow> (Some e, on_disk, [])
      | None \<Rightarrow>
          if on_disk then
            (case cleanup_warn w of
               Some e \<Rightarrow> (Some e, True, [])
             | None \<Rightarrow>
                 (let evs = [Print Cleaning_up,
                             Git [''worktree'', ''remove'', ''--force'', path_str worktree_path]];
                      still = (case remove_cmd w of Inl e \<Rightarrow> True | Inr gone \<Rightarrow> \<not> gone)
                  in case cleanup_exists2 w of
                       Some e \<Rightarrow> (Some e, still, evs)
                     | None \<Rightarrow>
                         if still
                         then (case rmtree w of
                                 Some e \<Rightarrow> (None, True, evs @ [Rmtree (path_str worktree_path)])
                               | None \<Rightarrow> (None, False, evs @ [Rmtree (path_str worktree_path)]))
                         else (None, False, evs)))
          else (None, False, []))"

subsection \<open>Running git, branch names\<close>

definition CAR_BRANDS :: "string list" where
  "CAR_BRANDS =
    [''toyota'', ''honda'', ''ford'', ''chevrolet'', ''bmw'', ''mercedes'', ''audi'',
     ''volkswagen'', ''porsche'', ''ferrari'', ''lamborghini'', ''maserati'', ''jaguar'',
     ''lexus'', ''infiniti'', ''acura'', ''mazda'', ''subaru'', ''nissan'', ''hyundai'', ''kia'',
     ''volvo'', ''tesla'', ''rivian'', ''bentley'', ''rollsroyce'', ''aston'', ''mclaren'',
     ''bugatti'', ''pagani'', ''koenigsegg'', ''alpine'', ''lotus'', ''morgan'', ''mini'',
     ''fiat'', ''alfa'', ''lancia'', ''peugeot'', ''renault'', ''citroen'', ''skoda'', ''seat'',
     ''opel'', ''saab'', ''dacia'', ''suzuki'', ''mitsubishi'']"

definition get_random_car :: "world \<Rightarrow> string" where
  "get_random_car w = CAR_BRANDS ! (car w mod length CAR_BRANDS)"

fun str_nat :: "nat \<Rightarrow> string" where
  "str_nat n =
     (if n < 10 then [char_of (48 + n)] else str_nat (n div 10) @ [char_of (48 + n mod 10)])"

text \<open>\<open>FileNotFoundError\<close> becomes \<open>RuntimeError\<close> (here \<open>OtherError\<close>); with \<open>check\<close> a
  non-zero exit code raises \<open>CalledProcessError\<close>.\<close>

definition run_git_command :: "world \<Rightarrow> string list \<Rightarrow> bool \<Rightarrow> exn + (nat \<times> string)" where
  "run_git_command w args check =
     (if \<not> git_present w then Inl OtherError
      else if check \<and> fst (git w args) \<noteq> 0 then Inl CalledProcessError
      else Inr (git w args))"

definition check_ref_format :: "string \<Rightarrow> string list" where
  "check_ref_format branch = [''check-ref-format'', ''--branch'', branch]"

definition validate_branch_name :: "world \<Rightarrow> string \<Rightarrow> exn + bool" where
  "validate_branch_name w branch =
     (case run_git_command w (check_ref_format branch) True of
        Inr r \<Rightarrow> Inr True
      | Inl CalledProcessError \<Rightarrow> Inr False
      | Inl e \<Rightarrow> Inl e)"

subsection \<open>main\<close>

datatype ending = Exit nat | Traceback exn

text \<open>What a run leaves behind: how the process ends (\<open>sys.exit(1)\<close>, a normal return
  \<open>Exit 0\<close>, or an exception nothing catches), the events in order, and whether the
  worktree directory is on disk at the end.\<close>

record run =
  ending :: ending
  events :: "event list"
  on_disk :: bool

definition show_ref :: "string \<Rightarrow> string \<Rightarrow> string list" where
  "show_ref prefix branch = [''show-ref'', ''--verify'', ''--quiet'', prefix @ branch]"

definition worktree_add :: "bool \<Rightarrow> path \<Rightarrow> string \<Rightarrow> string list" where
  "worktree_add branch_exists worktree_path branch =
     (if branch_exists then [''worktree'', ''add'', path_str worktree_path, branch]
      else [''worktree'', ''add'', ''-b'', branch, path_str worktree_path])"

text \<open>Step 5: the nested \<open>try\<close> around the two \<open>show-ref\<close> calls.\<close>

definition check_branch_exists :: "world \<Rightarrow> string \<Rightarrow> (exn + bool) \<times> event list" where
  "check_branch_exists w branch =
     (case run_git_command w (show_ref ''refs/heads/'' branch) True of
        Inr r \<Rightarrow> (Inr True, [Git (show_ref ''refs/heads/'' branch)])
      | Inl CalledProcessError \<Rightarrow>
          (case run_git_command w (show_ref ''refs/remotes/origin/'' branch) True of
             Inr r \<Rightarrow> (Inr True, [Git (show_ref ''refs/heads/'' branch),
                                    Git (show_ref ''refs/remotes/origin/'' branch)])
           | Inl CalledProcessError \<Rightarrow>
               (Inr False, [Git (show_ref ''refs/heads/'' branch),
                            Git (show_ref ''refs/remotes/origin/'' branch)])
           | Inl e \<Rightarrow> (Inl e, [Git (show_ref ''refs/heads/'' branch)]))
      | Inl e \<Rightarrow> (Inl e, []))"

text \<open>Steps 5 and 6. The result is the exception that leaves the steps, if any, the events,
  and whether the worktree directory is on disk afterwards.\<close>

definition create_worktree :: "world \<Rightarrow> path \<Rightarrow> string \<Rightarrow> exn option \<times> event list \<times> bool" where
  "create_worktree w worktree_path branch =
     (case check_branch_exists w branch of
        (Inl e, evs) \<Rightarrow> (Some e, evs, False)
      | (Inr branch_exists, evs) \<Rightarrow>
          (let evs = evs @ (if branch_exists then [] else [Print (Branch_does_not_exist branch)])
                 @ [Git (worktree_add branch_exists worktree_path branch)]
           in case run_git_command w (worktree_add branch_exists worktree_path branch) True of
                Inl e \<Rightarrow> (Some e, evs, add_leaves_dir w)
              | Inr r \<Rightarrow> (None, evs @ [Print Worktree_created], True)))"

text \<open>Steps 7 and 8: the final \<open>files_to_copy\<close>, \<open>skipped_dirs\<close>, \<open>total_size\<close> and what
  the scanner printed.\<close>

definition size_or_zero :: "world \<Rightarrow> path \<Rightarrow> nat" where
  "size_or_zero w f = (case stat_size w f of None \<Rightarrow> 0 | Some n \<Rightarrow> n)"

definition collect_files ::
  "(string \<Rightarrow> string \<Rightarrow> bool) \<Rightarrow> world \<Rightarrow> (exn + (path list \<times> string set \<times> nat)) \<times> msg list" where
  "collect_files fnm w =
     (let (gitignore_files, skipped, msgs) =
            (if gitignore w \<noteq> Absent then find_git_ignored_files fnm w else ([], {}, []))
      in case find_common_config_files w (set gitignore_files) of
           Inl e \<Rightarrow> (Inl e, msgs)
         | Inr (config_files, seen) \<Rightarrow>
             (Inr (gitignore_files @ config_files, skipped,
                   sum_list (map (size_or_zero w) gitignore_files)
                     + sum_list (map (size_or_zero w) config_files)),
              msgs))"

text \<open>Step 9: the loop over \<open>files_to_copy\<close>, with \<open>copied_count\<close> and the events so far.\<close>

fun copy_loop :: "world \<Rightarrow> path list \<Rightarrow> nat \<Rightarrow> event list \<Rightarrow> exn option \<times> nat \<times> event list" where
  "copy_loop w [] copied_count evs = (None, copied_count, evs)"
| "copy_loop w (file_path # rest) copied_count evs =
     (case copy_file_with_metadata w file_path of
        Inl e \<Rightarrow> (Some e, copied_count, evs)
      | Inr (ok, cevs) \<Rightarrow>
          if ok then copy_loop w rest (copied_count + 1) (evs @ cevs @ [Print (Copied_line file_path)])
          else copy_loop w rest copied_count (evs @ cevs))"

definition report :: "nat \<Rightarrow> nat \<Rightarrow> string set \<Rightarrow> event list" where
  "report copied_count total_size skipped =
     (if copied_count > 0 then [Print (Summary copied_count total_size)]
      else [Print No_files_copied])
     @ (if skipped \<noteq> {} then [Print (Excluded_dirs skipped)] else [])"

text \<open>Steps 7 to 10, which follow the creation of the worktree inside the same \<open>try\<close>.\<close>

definition sync_and_report ::
  "(string \<Rightarrow> string \<Rightarrow> bool) \<Rightarrow> world \<Rightarrow> exn option \<times> event list" where
  "sync_and_report fnm w =
     (case collect_files fnm w of
        (Inl e, msgs) \<Rightarrow> (Some e, map Print msgs)
      | (Inr (files, skipped, total_size), msgs) \<Rightarrow>
          (case copy_loop w files 0 (map Print msgs) of
             (Some e, copied_count, evs) \<Rightarrow> (Some e, evs)
           | (None, copied_count, evs) \<Rightarrow> (None, evs @ report copied_count total_size skipped)))"

text \<open>The three \<open>except\<close> clauses of \<open>main\<close>: a message, cleanup\_on\_failure,
  \<open>sys.exit(1)\<close>. An exception that leaves cleanup\_on\_failure leaves \<open>main\<close>.\<close>

definition failure_message :: "exn \<Rightarrow> msg" where
  "failure_message e =
     (case e of CalledProcessError \<Rightarrow> Command_error
      | KeyboardInterrupt \<Rightarrow> Cancelled_by_user
      | OtherError \<Rightarrow> Unexpected_error)"

definition handle_failure :: "world \<Rightarrow> path \<Rightarrow> exn \<Rightarrow> event list \<Rightarrow> bool \<Rightarrow> run" where
  "handle_failure w worktree_path e evs disk =
     (case cleanup_on_failure w worktree_path disk of
        (Some e', disk', cevs) \<Rightarrow>
          \<lparr>ending = Traceback e', events = evs @ [Print (failure_message e)] @ cevs,
           on_disk = disk'\<rparr>
      | (None, disk', cevs) \<Rightarrow>
          \<lparr>ending = Exit 1, events = evs @ [Print (failure_message e)] @ cevs, on_disk = disk'\<rparr>)"

text \<open>The \<open>try\<close> statement of \<open>main\<close> (steps 5 to 10) with its handlers.\<close>

definition try_block ::
  "(string \<Rightarrow> string \<Rightarrow> bool) \<Rightarrow> world \<Rightarrow> path \<Rightarrow> string \<Rightarrow> event list \<Rightarrow> run" where
  "try_block fnm w worktree_path branch evs0 =
     (case create_worktree w worktree_path branch of
        (Some e, evs, disk) \<Rightarrow> handle_failure w worktree_path e (evs0 @ evs) disk
      | (None, evs, disk) \<Rightarrow>
          (case sync_and_report fnm w of
             (Some e, evs') \<Rightarrow> handle_failure w worktree_path e (evs0 @ evs @ evs') disk
           | (None, evs') \<Rightarrow> \<lparr>ending = Exit 0, events = evs0 @ evs @ evs', on_disk = disk\<rparr>))"

definition rev_parse_git_dir :: "string list" where
  "rev_parse_git_dir = [''rev-parse'', ''--git-dir'']"

definition rev_parse_toplevel :: "string list" where
  "rev_parse_toplevel = [''rev-parse'', ''--show-toplevel'']"

definition default_worktree_path :: "world \<Rightarrow> path \<Rightarrow> path" where
  "default_worktree_path w source_dir =
     butlast source_dir
       @ [''worktrees'', (if source_dir = [] then [] else last source_dir) @ ''-'' @ str_nat (now w)]"

definition default_branch :: "world \<Rightarrow> string" where
  "default_branch w = ''ai-worktree/'' @ get_random_car w @ ''-'' @ str_nat (now w)"

text \<open>Steps 2 and 3: the defaults of the two arguments.\<close>

definition worktree_path_of :: "world \<Rightarrow> string \<Rightarrow> path \<Rightarrow> path" where
  "worktree_path_of w wt_arg source_dir =
     (if wt_arg = [] then default_worktree_path w source_dir else resolve w wt_arg)"

definition branch_of :: "world \<Rightarrow> string \<Rightarrow> string" where
  "branch_of w branch_arg = (if branch_arg = [] then default_branch w else branch_arg)"

text \<open>The exit status of the process: an exception nothing catches ends the interpreter
  with status 1.\<close>

definition exit_status :: "ending \<Rightarrow> nat" where
  "exit_status e = (case e of Exit n \<Rightarrow> n | Traceback x \<Rightarrow> 1)"

text \<open>\<open>main\<close>, after argument parsing: \<open>wt_arg\<close> and \<open>branch_arg\<close> are the two optional
  positional arguments, empty when absent. A run that ends before step 4 has not looked at
  the worktree path; its \<open>on_disk\<close> is \<open>False\<close>.\<close>

definition main :: "(string \<Rightarrow> string \<Rightarrow> bool) \<Rightarrow> world \<Rightarrow> string \<Rightarrow> string \<Rightarrow> run" where
  "main fnm w wt_arg branch_arg =
     (case run_git_command w rev_parse_git_dir True of
        Inl CalledProcessError \<Rightarrow>
          \<lparr>ending = Exit 1, events = [Git rev_parse_git_dir, Print Not_a_git_repository],
           on_disk = False\<rparr>
      | Inl e \<Rightarrow> \<lparr>ending = Traceback e, events = [], on_disk = False\<rparr>
      | Inr r \<Rightarrow>
          (case run_git_command w rev_parse_toplevel True of
             Inl e \<Rightarrow>
               \<lparr>ending = Traceback e, events = [Git rev_parse_git_dir, Git rev_parse_toplevel],
                on_disk = False\<rparr>
           | Inr (rc, source_dir_str) \<Rightarrow>
               (let source_dir = resolve w source_dir_str;
                    worktree_path = worktree_path_of w wt_arg source_dir;
                    branch = branch_of w branch_arg;
                    evs = [Git rev_parse_git_dir, Git rev_parse_toplevel,
                           Git (check_ref_format branch)]
                in case validate_branch_name w branch of
                     Inl e \<Rightarrow> \<lparr>ending = Traceback e, events = evs, on_disk = False\<rparr>
                   | Inr False \<Rightarrow>
                       \<lparr>ending = Exit 1, events = evs @ [Print (Invalid_branch_name branch)],
                        on_disk = False\<rparr>
                   | Inr True \<Rightarrow>
                       (case path_exists w worktree_path of
                          Inl e \<Rightarrow> \<lparr>ending = Traceback e, events = evs, on_disk = False\<rparr>
                        | Inr True \<Rightarrow>
                            \<lparr>ending = Exit 1,
                             events = evs @ [Print (Path_already_exists (path_str worktree_path)),
                                             Print (Suggestion (path_str worktree_path @ ''-2''))],
                             on_disk = True\<rparr>
                        | Inr False \<Rightarrow> try_block fnm w worktree_path branch evs))))"

subsection \<open>Auxiliary notions for the statements\<close>

text \<open>The files the walk looks at: those of every directory it enters.\<close>

fun walked_files :: "(string \<Rightarrow> string \<Rightarrow> bool) \<Rightarrow> path \<Rightarrow> fsnode list \<Rightarrow> path list"
and walked_below :: "(string \<Rightarrow> string \<Rightarrow> bool) \<Rightarrow> path \<Rightarrow> fsnode list \<Rightarrow> path list" where
  "walked_files fnm rel entries =
     map (\<lambda>f. rel @ [f]) (files_of entries) @ walked_below fnm rel entries"
| "walked_below fnm rel [] = []"
| "walked_below fnm rel (File f # es) = walked_below fnm rel es"
| "walked_below fnm rel (DirLink d # es) = walked_below fnm rel es"
| "walked_below fnm rel (Dir d cs # es) =
     (if is_blacklisted fnm d then [] else walked_files fnm (rel @ [d]) cs)
     @ walked_below fnm rel es"

text \<open>The names the walk meets in some \<open>dirs\<close> list: the directories whose parent it
  enters.\<close>

fun listed_dirs :: "(string \<Rightarrow> string \<Rightarrow> bool) \<Rightarrow> fsnode list \<Rightarrow> string list"
and listed_below :: "(string \<Rightarrow> string \<Rightarrow> bool) \<Rightarrow> fsnode list \<Rightarrow> string list" where
  "listed_dirs fnm entries = dirs_of entries @ listed_below fnm entries"
| "listed_below fnm [] = []"
| "listed_below fnm (File f # es) = listed_below fnm es"
| "listed_below fnm (DirLink d # es) = listed_below fnm es"
| "listed_below fnm (Dir d cs # es) =
     (if is_blacklisted fnm d then [] else listed_dirs fnm cs) @ listed_below fnm es"

text \<open>The body of the loop over \<open>files\<close> in terms of the full path, and the scan of a
  list of paths in order.\<close>

definition check_path ::
  "(string \<Rightarrow> string \<Rightarrow> bool) \<Rightarrow> (path \<Rightarrow> nat option) \<Rightarrow> string list \<Rightarrow> path
     \<Rightarrow> scan_state \<Rightarrow> scan_state" where
  "check_path fnm stat patterns q st =
     (if q \<noteq> [] then check_file fnm stat patterns (butlast q) (last q) st else st)"

text \<open>The source paths of the files a run copied.\<close>

fun copied_paths :: "event list \<Rightarrow> path list" where
  "copied_paths [] = []"
| "copied_paths (Copy_file p # evs) = p # copied_paths evs"
| "copied_paths (e # evs) = copied_paths evs"


definition matches :: "(string \<Rightarrow> string \<Rightarrow> bool) \<Rightarrow> string list \<Rightarrow> path \<Rightarrow> bool" where
  "matches fnm patterns p = (p \<noteq> [] \<and> list_ex (\<lambda>pattern. fnm (last p) pattern) patterns)"

text \<open>The size of \<open>q\<close> can be read and is within the ceiling.\<close>

definition fits :: "(path \<Rightarrow> nat option) \<Rightarrow> path \<Rightarrow> bool" where
  "fits stat q = (case stat q of None \<Rightarrow> False | Some n \<Rightarrow> n \<le> MAX_FILE_SIZE_BYTES)"

text \<open>The final \<open>files_to_copy\<close> of \<open>main\<close> (empty when steps 7 and 8 raise).\<close>

definition final_files :: "(string \<Rightarrow> string \<Rightarrow> bool) \<Rightarrow> world \<Rightarrow> path list" where
  "final_files fnm w =
     (case fst (collect_files fnm w) of Inl e \<Rightarrow> [] | Inr (files, skipped, total_size) \<Rightarrow> files)"

subsection \<open>A matcher and worlds for the examples\<close>

text \<open>Shell-style matching with \<open>*\<close> and \<open>?\<close>, which is what \<open>fnmatch\<close> does on patterns
  without brackets.\<close>

fun glob :: "string \<Rightarrow> string \<Rightarrow> bool" where
  "glob [] [] = True"
| "glob [] (c # cs) = False"
| "glob (p # ps) [] = (p = CHR ''*'' \<and> glob ps [])"
| "glob (p # ps) (c # cs) =
     (if p = CHR ''*'' then glob ps (c # cs) \<or> glob (p # ps) cs
      else (p = CHR ''?'' \<or> p = c) \<and> glob ps cs)"

definition fnmatch :: "string \<Rightarrow> string \<Rightarrow> bool" where
  "fnmatch name pat = glob pat name"

text \<open>A repository where every git command succeeds, the target path is free, there is no
  ignore file and no file at all.\<close>

definition plain_world :: world where
  "plain_world =
     \<lparr>git_present = True,
      git = (\<lambda>args. (0, ''/home/u/repo'')),
      resolve = path_parts,
      now = 1700000000,
      car = 4,
      path_exists = (\<lambda>p. Inr False),
      add_leaves_dir = False,
      gitignore = Absent,
      tree = [],
      stat_size = (\<lambda>p. None),
      probe = (\<lambda>p. Not_a_file),
      copy2 = (\<lambda>p. Copy_ok),
      remove_cmd = Inr True,
      rmtree = None,
      cleanup_exists1 = None,
      cleanup_warn = None,
      cleanup_exists2 = None\<rparr>"



text \<open>The events of steps 7 to 10: copies and the messages of the scanner, the copier
  and the report.\<close>

definition sync_event :: "event \<Rightarrow> bool" where
  "sync_event e =
     (case e of
        Copy_file f \<Rightarrow> True
      | Print Scanning \<Rightarrow> True
      | Print Unreadable_gitignore \<Rightarrow> True
      | Print (Skipping_large_file q n) \<Rightarrow> True
      | Print (Copied_line f) \<Rightarrow> True
      | Print (Failed_to_copy f) \<Rightarrow> True
      | Print (Summary c t) \<Rightarrow> True
      | Print No_files_copied \<Rightarrow> True
      | Print (Excluded_dirs s) \<Rightarrow> True
      | _ \<Rightarrow> False)"

text \<open>A blacklisted directory inside a blacklisted directory.\<close>

definition nested_world :: world where
  "nested_world =
     plain_world
       \<lparr>gitignore := Lines [''*.js''],
        tree := [Dir ''node_modules'' [Dir ''dist'' [File ''index.js'']],
                 Dir ''src'' [File ''app.js'']],
        stat_size := (\<lambda>p. Some 200)\<rparr>"

text \<open>Two ignored log files; the size of the first cannot be read.\<close>

definition unreadable_world :: world where
  "unreadable_world =
     plain_world
       \<lparr>gitignore := Lines [''*.log''],
        tree := [File ''a.log'', File ''b.log''],
        stat_size := (\<lambda>p. if p = [''a.log''] then None else Some 5)\<rparr>"

text \<open>An ignored \<open>.env\<close> of 11 MiB at the repository root.\<close>

definition oversized_env_world :: world where
  "oversized_env_world =
     plain_world
       \<lparr>gitignore := Lines [''.env''],
        tree := [File ''.env''],
        stat_size := (\<lambda>p. if p = [''.env''] then Some 11534336 else None),
        probe := (\<lambda>p. if p = [''.env''] then Regular_file else Not_a_file)\<rparr>"





text \<open>No ignore file; \<open>.env\<close> exists beside a file that is no common config file.\<close>

definition no_gitignore_world :: world where
  "no_gitignore_world =
     plain_world
       \<lparr>tree := [File ''.env'', File ''notes.txt''],
        stat_size := (\<lambda>p. Some 10),
        probe := (\<lambda>p. if p = [''.env''] then Regular_file else Not_a_file)\<rparr>"

text \<open>An ignored \<open>.env\<close> that is also a common config file, and a second common config
  file whose copy fails.\<close>

definition two_configs_world :: world where
  "two_configs_world =
     plain_world
       \<lparr>gitignore := Lines [''.env''],
        tree := [File ''.env'', File ''.env.local''],
        stat_size := (\<lambda>p. Some 100),
        probe := (\<lambda>p. if p = [''.env''] \<or> p = [''.env.local''] then Regular_file else Not_a_file),
        copy2 := (\<lambda>p. if p = [''.env.local''] then Copy_exception else Copy_ok)\<rparr>"

section \<open>Properties\<close>

subsection \<open>Ignore-file parsing\<close>

lemma parse_line_Some:
  "parse_line raw = Some p \<longleftrightarrow>
     (strip raw \<noteq> [] \<and> \<not> startswith (strip raw) (CHR ''#'') \<and> \<not> startswith (strip raw) (CHR ''!'')
      \<and> p = rstrip_slash (strip raw) \<and> CHR ''/'' \<notin> set p \<and> CHR 0x5C \<notin> set p
      \<and> \<not> has_double_star p)"
  by (auto simp: parse_line_def Let_def)

lemma set_read_patterns: "set (read_patterns ls) = {p. \<exists>raw \<in> set ls. parse_line raw = Some p}"
  by (induction ls) (auto split: option.splits)

text \<open>
  Claim C3, as stated, fails: the parser does not strip one trailing path separator, it
  strips all trailing \<open>/\<close> (\<open>rstrip("/")\<close>). The line \<open>build//\<close> is a pattern for the code
  and is skipped by the parser of the specification.
\<close>

theorem read_patterns_differs_from_spec:
  "set (read_patterns [''build//'']) \<noteq> set (spec_read_patterns [''build//''])"
  by (simp add: parse_line_def spec_parse_line_def strip_def is_space_def rstrip_slash_def
      startswith_def strip_one_trailing_slash_def Let_def)

text \<open>
  Claim C3, amended: the patterns are exactly the lines that, once trimmed, are not empty
  and start with neither \<open>#\<close> nor \<open>!\<close>, with all their trailing \<open>/\<close> removed, provided
  that what is left contains no \<open>/\<close>, no backslash and no \<open>**\<close>. In particular no pattern
  contains a path separator or a double wildcard.
\<close>

theorem read_patterns_exact:
  "(p \<in> set (read_patterns ls) \<longleftrightarrow>
     (\<exists>raw \<in> set ls. strip raw \<noteq> [] \<and> \<not> startswith (strip raw) (CHR ''#'')
        \<and> \<not> startswith (strip raw) (CHR ''!'')
        \<and> p = rstrip_slash (strip raw) \<and> CHR ''/'' \<notin> set p \<and> CHR 0x5C \<notin> set p
        \<and> \<not> has_double_star p))
   \<and> (\<forall>q \<in> set (read_patterns ls).
         CHR ''/'' \<notin> set q \<and> CHR 0x5C \<notin> set q \<and> \<not> has_double_star q)"
  by (auto simp: set_read_patterns parse_line_Some)

theorem read_patterns_exact_witness:
  "''build'' \<in> set (read_patterns [''*.local.json'', ''# secrets'', ''src/gen'', ''build//''])
   \<and> ''src/gen'' \<notin> set (read_patterns [''*.local.json'', ''# secrets'', ''src/gen'', ''build//''])"
  using read_patterns_exact [of "''build''" "[''*.local.json'', ''# secrets'', ''src/gen'', ''build//'']"]
  by (auto simp: strip_def is_space_def rstrip_slash_def startswith_def)

subsection \<open>Cleanup\<close>

text \<open>Whatever the two sub-steps do (return, fail, raise any exception),
  cleanup\_on\_failure raises only what its existence tests and its warning raise.\<close>

lemma cleanup_on_failure_raises_iff:
  "fst (cleanup_on_failure w p d) = None \<longleftrightarrow>
     cleanup_exists1 w = None \<and> (d \<longrightarrow> cleanup_warn w = None \<and> cleanup_exists2 w = None)"
  by (auto simp: cleanup_on_failure_def Let_def split: option.splits sum.splits)


subsection \<open>The directory walk as a scan of the walked files\<close>

lemma check_file_eq: "check_file fnm S P rel f st = check_path fnm S P (rel @ [f]) st"
  by (simp add: check_path_def)

lemma check_files_fold:
  "check_files fnm S P rel fs st = fold (check_path fnm S P) (map (\<lambda>f. rel @ [f]) fs) st"
  by (induction fs arbitrary: st) (simp_all add: check_file_eq)

lemma check_path_skipped_upd:
  "check_path fnm S P q (st\<lparr>skipped_dirs := X\<rparr>) = (check_path fnm S P q st)\<lparr>skipped_dirs := X\<rparr>"
  by (simp add: check_path_def check_file_def Let_def split: option.splits)

lemma fold_check_path_skipped_upd:
  "fold (check_path fnm S P) qs (st\<lparr>skipped_dirs := X\<rparr>)
     = (fold (check_path fnm S P) qs st)\<lparr>skipped_dirs := X\<rparr>"
  by (induction qs arbitrary: st) (simp_all add: check_path_skipped_upd)

lemma check_path_skipped: "skipped_dirs (check_path fnm S P q st) = skipped_dirs st"
  by (simp add: check_path_def check_file_def Let_def split: option.splits)

lemma fold_check_path_skipped: "skipped_dirs (fold (check_path fnm S P) qs st) = skipped_dirs st"
  by (induction qs arbitrary: st) (simp_all add: check_path_skipped)

lemma filter_dirs_eq:
  "filter_dirs fnm ds st = st\<lparr>skipped_dirs := skipped_dirs st \<union> {d \<in> set ds. is_blacklisted fnm d}\<rparr>"
proof (induction ds arbitrary: st)
  case Nil
  then show ?case by simp
next
  case (Cons d ds)
  have "insert d (skipped_dirs st) \<union> {x \<in> set ds. is_blacklisted fnm x}
      = skipped_dirs st \<union> {x. (x = d \<or> x \<in> set ds) \<and> is_blacklisted fnm x}"
    if "is_blacklisted fnm d" using that by auto
  moreover have "{x \<in> set ds. is_blacklisted fnm x} = {x. (x = d \<or> x \<in> set ds) \<and> is_blacklisted fnm x}"
    if "\<not> is_blacklisted fnm d" using that by auto
  ultimately show ?case using Cons by simp
qed

lemma walk_flat:
  "walk fnm S P rel es st =
     (fold (check_path fnm S P) (walked_files fnm rel es) st)
       \<lparr>skipped_dirs := skipped_dirs st \<union> {d \<in> set (listed_dirs fnm es). is_blacklisted fnm d}\<rparr>"
  and walk_dirs_flat:
  "walk_dirs fnm S P rel es st =
     (fold (check_path fnm S P) (walked_below fnm rel es) st)
       \<lparr>skipped_dirs := skipped_dirs st \<union> {d \<in> set (listed_below fnm es). is_blacklisted fnm d}\<rparr>"
proof (induction fnm S P rel es st and fnm S P rel es st rule: walk_walk_dirs.induct)
  case (1 fnm S P rel entries st)
  show ?case
    apply (subst walk.simps)
    apply (subst 1)
    apply (simp add: check_files_fold filter_dirs_eq fold_check_path_skipped_upd
        fold_check_path_skipped Un_assoc)
    apply (rule arg_cong[where f="\<lambda>X. skipped_dirs_update X _"])
    apply (auto)
    done
next
  case (2 fnm S P rel st)
  then show ?case by simp
next
  case (3 fnm S P rel f es st)
  then show ?case by simp
next
  case (4 fnm S P rel d es st)
  then show ?case by simp
next
  case (5 fnm S P rel d cs es st)
  show ?case
  proof (cases "is_blacklisted fnm d")
    case True
    then show ?thesis using 5 by simp
  next
    case False
    note ih1 = 5(1)[OF False]
    have ih2: "walk_dirs fnm S P rel es (walk fnm S P (rel @ [d]) cs st) =
      (fold (check_path fnm S P) (walked_below fnm rel es) (walk fnm S P (rel @ [d]) cs st))
       \<lparr>skipped_dirs := skipped_dirs (walk fnm S P (rel @ [d]) cs st)
            \<union> {d \<in> set (listed_below fnm es). is_blacklisted fnm d}\<rparr>"
      using 5(2) False by simp
    have eq: "skipped_dirs st \<union> {d \<in> set (dirs_of cs @ listed_below fnm cs). is_blacklisted fnm d}
          \<union> {d \<in> set (listed_below fnm es). is_blacklisted fnm d}
        = skipped_dirs st \<union> {da \<in> set (listed_below fnm (Dir d cs # es)). is_blacklisted fnm da}"
      using False by auto
    show ?thesis
      apply (simp only: walk_dirs.simps False if_False ih2)
      apply (simp only: ih1)
      apply (simp add: fold_check_path_skipped_upd fold_check_path_skipped False)
      apply (rule arg_cong[where f="\<lambda>X. skipped_dirs_update X _"])
      apply (rule ext)
      using eq apply (simp add: False)
      done
  qed
qed


lemma cp_seen:
  "seen_files (check_path fnm S P q st)
     = (if matches fnm P q then insert q (seen_files st) else seen_files st)"
  by (auto simp: check_path_def check_file_def matches_def Let_def split: option.splits)

lemma cp_files:
  "files_to_copy (check_path fnm S P q st)
     = files_to_copy st @ (if matches fnm P q \<and> q \<notin> seen_files st \<and> fits S q then [q] else [])"
  by (auto simp: check_path_def check_file_def matches_def fits_def Let_def split: option.splits)

lemma cp_printed:
  "printed (check_path fnm S P q st)
     = printed st @ (if matches fnm P q \<and> q \<notin> seen_files st \<and> S q \<noteq> None \<and> \<not> fits S q
                     then [Skipping_large_file q (the (S q))] else [])"
  by (auto simp: check_path_def check_file_def matches_def fits_def Let_def split: option.splits)

lemma fold_seen:
  "seen_files (fold (check_path fnm S P) qs st) = seen_files st \<union> {q \<in> set qs. matches fnm P q}"
  by (induction qs arbitrary: st) (auto simp: cp_seen)

lemma fold_files:
  "set (files_to_copy (fold (check_path fnm S P) qs st))
     = set (files_to_copy st) \<union> {q \<in> set qs. matches fnm P q \<and> q \<notin> seen_files st \<and> fits S q}"
  by (induction qs arbitrary: st) (auto simp: cp_files cp_seen)

lemma fold_printed:
  "set (printed (fold (check_path fnm S P) qs st))
     = set (printed st) \<union> {Skipping_large_file q (the (S q)) | q.
          q \<in> set qs \<and> matches fnm P q \<and> q \<notin> seen_files st \<and> S q \<noteq> None \<and> \<not> fits S q}"
  by (induction qs arbitrary: st) (auto simp: cp_printed cp_seen)

lemma fold_distinct:
  "distinct (files_to_copy st) \<Longrightarrow> set (files_to_copy st) \<subseteq> seen_files st \<Longrightarrow>
   distinct (files_to_copy (fold (check_path fnm S P) qs st))
   \<and> set (files_to_copy (fold (check_path fnm S P) qs st))
       \<subseteq> seen_files (fold (check_path fnm S P) qs st)"
proof (induction qs arbitrary: st)
  case Nil
  then show ?case by simp
next
  case (Cons q qs)
  have "distinct (files_to_copy (check_path fnm S P q st))"
    using Cons.prems by (auto simp: cp_files)
  moreover have "set (files_to_copy (check_path fnm S P q st)) \<subseteq> seen_files (check_path fnm S P q st)"
    using Cons.prems by (auto simp: cp_files cp_seen)
  ultimately show ?case using Cons.IH by simp
qed


lemma walked_components:
  "q \<in> set (walked_files fnm rel es) \<Longrightarrow>
     \<exists>ds f. q = rel @ ds @ [f] \<and> (\<forall>d \<in> set ds. \<not> is_blacklisted fnm d)"
  and walked_below_components:
  "q \<in> set (walked_below fnm rel es) \<Longrightarrow>
     \<exists>ds f. q = rel @ ds @ [f] \<and> (\<forall>d \<in> set ds. \<not> is_blacklisted fnm d)"
proof (induction fnm rel es and fnm rel es rule: walked_files_walked_below.induct)
  case (1 fnm rel entries)
  from 1(2) have "q \<in> (\<lambda>f. rel @ [f]) ` set (files_of entries) \<or> q \<in> set (walked_below fnm rel entries)"
    by (simp only: walked_files.simps set_append set_map Un_iff)
  then show ?case
  proof
    assume "q \<in> (\<lambda>f. rel @ [f]) ` set (files_of entries)"
    then obtain f where "q = rel @ [] @ [f]" by auto
    moreover have "\<forall>d \<in> set ([]::string list). \<not> is_blacklisted fnm d" by simp
    ultimately show ?thesis by blast
  next
    assume "q \<in> set (walked_below fnm rel entries)"
    then show ?thesis by (rule 1(1))
  qed
next
  case (2 fnm rel)
  then show ?case by simp
next
  case (3 fnm rel f es)
  from 3(2) have "q \<in> set (walked_below fnm rel es)" by simp
  then show ?case by (rule 3(1))
next
  case (4 fnm rel d es)
  from 4(2) have "q \<in> set (walked_below fnm rel es)" by simp
  then show ?case by (rule 4(1))
next
  case (5 fnm rel d cs es)
  show ?case
  proof (cases "q \<in> set (walked_below fnm rel es)")
    case True
    then show ?thesis by (rule 5(2))
  next
    case False
    with 5(3) have nb: "\<not> is_blacklisted fnm d" and q: "q \<in> set (walked_files fnm (rel @ [d]) cs)"
      by (simp_all only: walked_below.simps set_append Un_iff split: if_splits) auto
    from 5(1)[OF nb q] obtain ds f where "q = (rel @ [d]) @ ds @ [f]" "\<forall>d \<in> set ds. \<not> is_blacklisted fnm d"
      by blast
    then have "q = rel @ (d # ds) @ [f] \<and> (\<forall>x \<in> set (d # ds). \<not> is_blacklisted fnm x)"
      using nb by simp
    then show ?thesis by blast
  qed
qed


subsection \<open>What find\_git\_ignored\_files returns\<close>

lemma find_Lines:
  assumes "gitignore w = Lines ls"
  shows "find_git_ignored_files fnm w =
    (files_to_copy (fold (check_path fnm (stat_size w) (read_patterns ls)) (walked_files fnm [] (tree w))
        \<lparr>files_to_copy = [], skipped_dirs = {}, seen_files = {}, printed = [Scanning]\<rparr>),
     {d \<in> set (listed_dirs fnm (tree w)). is_blacklisted fnm d},
     printed (fold (check_path fnm (stat_size w) (read_patterns ls)) (walked_files fnm [] (tree w))
        \<lparr>files_to_copy = [], skipped_dirs = {}, seen_files = {}, printed = [Scanning]\<rparr>))"
  using assms by (simp add: find_git_ignored_files_def Let_def walk_flat del: walk.simps walked_files.simps listed_dirs.simps)

lemma find_files_set:
  assumes "gitignore w = Lines ls"
  shows "set (fst (find_git_ignored_files fnm w)) =
     {q \<in> set (walked_files fnm [] (tree w)). matches fnm (read_patterns ls) q \<and> fits (stat_size w) q}"
  by (simp add: find_Lines[OF assms] fold_files del: walked_files.simps)

lemma find_files_not_Lines:
  "(\<forall>ls. gitignore w \<noteq> Lines ls) \<Longrightarrow> fst (find_git_ignored_files fnm w) = []
      \<and> fst (snd (find_git_ignored_files fnm w)) = {}"
  by (cases "gitignore w") (auto simp: find_git_ignored_files_def)

lemma find_files_distinct: "distinct (fst (find_git_ignored_files fnm w))"
proof (cases "gitignore w")
  case (Lines ls)
  show ?thesis
    using fold_distinct[of "\<lparr>files_to_copy = [], skipped_dirs = {}, seen_files = {}, printed = [Scanning]\<rparr>"
        fnm "stat_size w" "read_patterns ls" "walked_files fnm [] (tree w)"]
    by (simp add: find_Lines[OF Lines] del: walked_files.simps)
qed (simp_all add: find_git_ignored_files_def)

lemma find_msgs_set:
  assumes "gitignore w = Lines ls"
  shows "set (snd (snd (find_git_ignored_files fnm w))) =
     {Scanning} \<union> {Skipping_large_file q (the (stat_size w q)) | q.
        q \<in> set (walked_files fnm [] (tree w)) \<and> matches fnm (read_patterns ls) q
        \<and> stat_size w q \<noteq> None \<and> \<not> fits (stat_size w) q}"
  by (simp add: find_Lines[OF assms] fold_printed del: walked_files.simps)

lemma find_files_components:
  assumes "q \<in> set (fst (find_git_ignored_files fnm w))" "d \<in> set (butlast q)"
  shows "\<not> is_blacklisted fnm d"
proof (cases "gitignore w")
  case (Lines ls)
  with assms(1) have "q \<in> set (walked_files fnm [] (tree w))"
    using find_files_set[OF Lines, of fnm] by blast
  from walked_components[OF this] obtain ds f where "q = ds @ [f]" "\<forall>d \<in> set ds. \<not> is_blacklisted fnm d"
    by auto
  then show ?thesis using assms(2) by simp
qed (use assms in \<open>simp_all add: find_git_ignored_files_def\<close>)


subsection \<open>Blacklisted directories, unreadable sizes\<close>

lemmas string_defs = strip_def is_space_def rstrip_slash_def startswith_def parse_line_def
  fnmatch_def path_parts_def

lemmas scan_defs = find_git_ignored_files_def check_file_def is_blacklisted_def BLACKLIST_def
  MAX_FILE_SIZE_BYTES_def Let_def

text \<open>
  Claim C5, as stated, fails: a blacklisted directory is recorded in \<open>skipped_dirs\<close> only
  if the walk lists it. With \<open>node_modules/dist/index.js\<close> the walk never enters
  \<open>node_modules\<close>, so it never sees \<open>dist\<close>, which matches the blacklist and is not
  recorded.
\<close>

theorem nested_blacklisted_dir_not_recorded: "is_blacklisted fnmatch ''dist''
   \<and> ''dist'' \<notin> fst (snd (find_git_ignored_files fnmatch nested_world))"
  by (simp add: nested_world_def plain_world_def string_defs scan_defs)

text \<open>
  Claim C5, amended. For every run of find\_git\_ignored\_files: no directory component
  of a candidate matches the blacklist, so no file beneath a blacklisted directory of the
  tree, at any depth, is a candidate; the same holds for the files reported as too large,
  so nothing beneath such a directory is even looked at; and when the ignore file is read,
  \<open>skipped_dirs\<close> is exactly the set of blacklisted names among the directories the walk
  lists, that is among the directories no ancestor of which (below the root) is
  blacklisted. The root of the walk itself is not tested.
\<close>

theorem blacklisted_dirs_pruned:
 "(\<forall>q \<in> set (fst (find_git_ignored_files fnm w)). \<forall>d \<in> set (butlast q). \<not> is_blacklisted fnm d)
  \<and> (\<forall>q n. Skipping_large_file q n \<in> set (snd (snd (find_git_ignored_files fnm w)))
        \<longrightarrow> (\<forall>d \<in> set (butlast q). \<not> is_blacklisted fnm d))
  \<and> (\<forall>ls. gitignore w = Lines ls \<longrightarrow>
        fst (snd (find_git_ignored_files fnm w))
          = {d \<in> set (listed_dirs fnm (tree w)). is_blacklisted fnm d})"
proof (intro conjI ballI allI impI)
  fix q d assume "q \<in> set (fst (find_git_ignored_files fnm w))" "d \<in> set (butlast q)"
  then show "\<not> is_blacklisted fnm d" by (rule find_files_components)
next
  fix q n d
  assume m: "Skipping_large_file q n \<in> set (snd (snd (find_git_ignored_files fnm w)))"
    and d: "d \<in> set (butlast q)"
  show "\<not> is_blacklisted fnm d"
  proof (cases "gitignore w")
    case (Lines ls)
    from m have "q \<in> set (walked_files fnm [] (tree w))"
      unfolding find_msgs_set[OF Lines] by blast
    from walked_components[OF this] obtain ds f where "q = ds @ [f]" "\<forall>d \<in> set ds. \<not> is_blacklisted fnm d"
      by auto
    then show ?thesis using d by simp
  qed (use m in \<open>simp_all add: find_git_ignored_files_def\<close>)
next
  fix ls assume "gitignore w = Lines ls"
  then show "fst (snd (find_git_ignored_files fnm w))
          = {d \<in> set (listed_dirs fnm (tree w)). is_blacklisted fnm d}"
    by (simp add: find_Lines del: listed_dirs.simps walked_files.simps)
qed

theorem blacklisted_dirs_pruned_witness: "gitignore nested_world = Lines [''*.js'']
  \<and> fst (find_git_ignored_files fnmatch nested_world) = [[''src'', ''app.js'']]
  \<and> \<not> is_blacklisted fnmatch ''src''
  \<and> fst (snd (find_git_ignored_files fnmatch nested_world)) = {''node_modules''}"
  using blacklisted_dirs_pruned [of fnmatch nested_world]
  by (simp add: nested_world_def plain_world_def string_defs scan_defs)

text \<open>
  Claim C10: a file whose \<open>stat\<close> raises \<open>OSError\<close> is not a candidate and no
  "skipping large file" warning names it; the scan goes on: the candidates remain exactly
  the walked files that match a pattern and whose size can be read and is within the
  ceiling.
\<close>

theorem unreadable_size_excluded:
  assumes "stat_size w q = None"
  shows "q \<notin> set (fst (find_git_ignored_files fnm w))
    \<and> (\<forall>n. Skipping_large_file q n \<notin> set (snd (snd (find_git_ignored_files fnm w))))
    \<and> (\<forall>ls. gitignore w = Lines ls \<longrightarrow>
          set (fst (find_git_ignored_files fnm w)) =
            {p \<in> set (walked_files fnm [] (tree w)).
               matches fnm (read_patterns ls) p \<and> fits (stat_size w) p})"
proof (cases "gitignore w")
  case (Lines ls)
  show ?thesis
    using assms by (auto simp: find_files_set[OF Lines] find_msgs_set[OF Lines] fits_def Lines
        simp del: walked_files.simps)
qed (simp_all add: find_git_ignored_files_def)

theorem unreadable_size_excluded_witness: "stat_size unreadable_world [''a.log''] = None
   \<and> matches fnmatch [''*.log''] [''a.log'']
   \<and> [''a.log''] \<notin> set (fst (find_git_ignored_files fnmatch unreadable_world))
   \<and> [''b.log''] \<in> set (fst (find_git_ignored_files fnmatch unreadable_world))"
  using unreadable_size_excluded [of unreadable_world "[''a.log'']" fnmatch]
  by (simp add: unreadable_world_def plain_world_def string_defs scan_defs matches_def fits_def)


subsection \<open>The final list of files to copy\<close>

lemma configs_loop:
  "find_common_config_files_loop pr cs acc seen = Inr (cfgs, seen') \<Longrightarrow>
   distinct acc \<Longrightarrow> set acc \<subseteq> seen \<Longrightarrow>
     distinct cfgs
     \<and> set cfgs = set acc \<union> {path_parts c | c. c \<in> set cs \<and> pr (path_parts c) = Regular_file
                                   \<and> path_parts c \<notin> seen}
     \<and> set cfgs \<subseteq> seen'"
proof (induction cs arbitrary: acc seen)
  case Nil
  then show ?case by auto
next
  case (Cons c cs)
  show ?case
  proof (cases "pr (path_parts c)")
    case Regular_file
    show ?thesis
    proof (cases "path_parts c \<in> seen")
      case True
      with Regular_file Cons.prems have "find_common_config_files_loop pr cs acc seen = Inr (cfgs, seen')"
        by (simp add: Let_def)
      from Cons.IH[OF this Cons.prems(2,3)] show ?thesis using True Regular_file by auto
    next
      case False
      with Regular_file Cons.prems have
        "find_common_config_files_loop pr cs (acc @ [path_parts c]) (insert (path_parts c) seen) = Inr (cfgs, seen')"
        by (simp add: Let_def)
      moreover have "distinct (acc @ [path_parts c])" using False Cons.prems by auto
      moreover have "set (acc @ [path_parts c]) \<subseteq> insert (path_parts c) seen" using Cons.prems by auto
      ultimately have "distinct cfgs
         \<and> set cfgs = set (acc @ [path_parts c]) \<union> {path_parts ca | ca. ca \<in> set cs \<and> pr (path_parts ca) = Regular_file
                                   \<and> path_parts ca \<notin> insert (path_parts c) seen}
         \<and> set cfgs \<subseteq> seen'"
        by (rule Cons.IH)
      then show ?thesis using False Regular_file by auto
    qed
  next
    case Not_a_file
    with Cons.prems have "find_common_config_files_loop pr cs acc seen = Inr (cfgs, seen')"
      by (simp add: Let_def)
    from Cons.IH[OF this Cons.prems(2,3)] show ?thesis using Not_a_file by auto
  next
    case Probe_error
    with Cons.prems show ?thesis by (simp add: Let_def)
  qed
qed

lemma configs_loop_returns:
  "(\<forall>c \<in> set cs. pr (path_parts c) \<noteq> Probe_error) \<Longrightarrow>
     \<exists>r. find_common_config_files_loop pr cs acc seen = Inr r"
  by (induction cs arbitrary: acc seen) (auto simp: Let_def split: probe.splits)

lemma configs_loop_raises:
  "find_common_config_files_loop pr cs acc seen = Inl e \<Longrightarrow>
     e = OtherError \<and> (\<exists>c \<in> set cs. pr (path_parts c) = Probe_error)"
  by (induction cs arbitrary: acc seen) (auto simp: Let_def split: probe.splits if_splits)

lemma find_when_absent:
  "(if gitignore w \<noteq> Absent then find_git_ignored_files fnm w else ([], {}, []))
     = find_git_ignored_files fnm w"
  by (simp add: find_git_ignored_files_def)

lemma collect_files_eq:
  "collect_files fnm w =
     (case find_common_config_files w (set (fst (find_git_ignored_files fnm w))) of
        Inl e \<Rightarrow> (Inl e, snd (snd (find_git_ignored_files fnm w)))
      | Inr (config_files, seen) \<Rightarrow>
          (Inr (fst (find_git_ignored_files fnm w) @ config_files,
                fst (snd (find_git_ignored_files fnm w)),
                sum_list (map (size_or_zero w) (fst (find_git_ignored_files fnm w)))
                  + sum_list (map (size_or_zero w) config_files)),
           snd (snd (find_git_ignored_files fnm w))))"
  unfolding collect_files_def find_when_absent
  by (cases "find_git_ignored_files fnm w") (simp add: Let_def split: sum.splits prod.splits)

lemma collect_files_Inr:
  assumes "collect_files fnm w = (Inr (files, skipped, total_size), msgs)"
  shows "distinct files"
    and "set files = set (fst (find_git_ignored_files fnm w))
           \<union> {path_parts c | c. c \<in> set COMMON_CONFIGS \<and> probe w (path_parts c) = Regular_file}"
    and "skipped = fst (snd (find_git_ignored_files fnm w))"
    and "msgs = snd (snd (find_git_ignored_files fnm w))"
proof -
  let ?gi = "fst (find_git_ignored_files fnm w)"
  from assms obtain cfgs seen' where
    loop: "find_common_config_files_loop (probe w) COMMON_CONFIGS [] (set ?gi) = Inr (cfgs, seen')"
    and files: "files = ?gi @ cfgs"
    and rest: "skipped = fst (snd (find_git_ignored_files fnm w))" "msgs = snd (snd (find_git_ignored_files fnm w))"
    by (auto simp: collect_files_eq find_common_config_files_def split: sum.splits prod.splits)
  from configs_loop[OF loop] have c: "distinct cfgs"
    "set cfgs = {path_parts c | c. c \<in> set COMMON_CONFIGS \<and> probe w (path_parts c) = Regular_file
                                   \<and> path_parts c \<notin> set ?gi}"
    by auto
  show "distinct files" using c find_files_distinct[of fnm w] files by auto
  show "set files = set ?gi
           \<union> {path_parts c | c. c \<in> set COMMON_CONFIGS \<and> probe w (path_parts c) = Regular_file}"
    using c files by auto
  show "skipped = fst (snd (find_git_ignored_files fnm w))" "msgs = snd (snd (find_git_ignored_files fnm w))"
    using rest by auto
qed

lemma collect_files_Inl:
  "collect_files fnm w = (Inl e, msgs) \<Longrightarrow>
     e = OtherError \<and> (\<exists>c \<in> set COMMON_CONFIGS. probe w (path_parts c) = Probe_error)"
  by (auto simp: collect_files_eq find_common_config_files_def split: sum.splits prod.splits
      dest: configs_loop_raises)

lemma collect_files_returns:
  "(\<forall>p. probe w p \<noteq> Probe_error) \<Longrightarrow> \<exists>r. fst (collect_files fnm w) = Inr r"
  using configs_loop_returns[of COMMON_CONFIGS "probe w" "[]" "set (fst (find_git_ignored_files fnm w))"]
  by (auto simp: collect_files_eq find_common_config_files_def split: sum.splits prod.splits)



subsection \<open>The copy loop\<close>

lemma copied_paths_append [simp]: "copied_paths (xs @ ys) = copied_paths xs @ copied_paths ys"
  by (induction xs rule: copied_paths.induct) simp_all

lemma copied_paths_Print [simp]: "copied_paths (map Print ms) = []"
  by (induction ms) simp_all

lemma copied_paths_mem: "p \<in> set (copied_paths evs) \<longleftrightarrow> Copy_file p \<in> set evs"
  by (induction evs rule: copied_paths.induct) auto

lemma copy_loop_copied:
  "copy_loop w fs c evs = (r, c', evs') \<Longrightarrow>
     \<exists>k. copied_paths evs' = copied_paths evs @ filter (\<lambda>p. copy2 w p = Copy_ok) (take k fs)"
proof (induction fs arbitrary: c evs)
  case Nil
  then show ?case by simp
next
  case (Cons f fs)
  show ?case
  proof (cases "copy2 w f")
    case Copy_ok
    with Cons.prems have "copy_loop w fs (c + 1) (evs @ [Copy_file f] @ [Print (Copied_line f)]) = (r, c', evs')"
      by (simp add: copy_file_with_metadata_def)
    from Cons.IH[OF this] obtain k where
      "copied_paths evs' = copied_paths evs @ [f] @ filter (\<lambda>p. copy2 w p = Copy_ok) (take k fs)"
      by auto
    then have "copied_paths evs' = copied_paths evs @ filter (\<lambda>p. copy2 w p = Copy_ok) (take (Suc k) (f # fs))"
      using Copy_ok by simp
    then show ?thesis by blast
  next
    case Copy_exception
    with Cons.prems have "copy_loop w fs c (evs @ [Print (Failed_to_copy f)]) = (r, c', evs')"
      by (simp add: copy_file_with_metadata_def)
    from Cons.IH[OF this] obtain k where
      "copied_paths evs' = copied_paths evs @ filter (\<lambda>p. copy2 w p = Copy_ok) (take k fs)"
      by auto
    then have "copied_paths evs' = copied_paths evs @ filter (\<lambda>p. copy2 w p = Copy_ok) (take (Suc k) (f # fs))"
      using Copy_exception by simp
    then show ?thesis by blast
  next
    case Copy_interrupt
    with Cons.prems have "evs' = evs" by (simp add: copy_file_with_metadata_def)
    then have "copied_paths evs' = copied_paths evs @ filter (\<lambda>p. copy2 w p = Copy_ok) (take 0 (f # fs))"
      by simp
    then show ?thesis by blast
  qed
qed

lemma copy_loop_events:
  "copy_loop w fs c evs = (r, c', evs') \<Longrightarrow> e \<in> set evs' \<Longrightarrow>
     e \<in> set evs \<or> (\<exists>f \<in> set fs. e = Copy_file f \<or> e = Print (Copied_line f) \<or> e = Print (Failed_to_copy f))"
proof (induction fs arbitrary: c evs)
  case Nil
  then show ?case by simp
next
  case (Cons f fs)
  show ?case
  proof (cases "copy2 w f")
    case Copy_ok
    with Cons.prems have "copy_loop w fs (c + 1) (evs @ [Copy_file f] @ [Print (Copied_line f)]) = (r, c', evs')"
      by (simp add: copy_file_with_metadata_def)
    from Cons.IH[OF this Cons.prems(2)] show ?thesis by auto
  next
    case Copy_exception
    with Cons.prems have "copy_loop w fs c (evs @ [Print (Failed_to_copy f)]) = (r, c', evs')"
      by (simp add: copy_file_with_metadata_def)
    from Cons.IH[OF this Cons.prems(2)] show ?thesis by auto
  next
    case Copy_interrupt
    with Cons.prems show ?thesis by (simp add: copy_file_with_metadata_def)
  qed
qed

lemma copy_loop_completes:
  "(\<forall>f \<in> set fs. copy2 w f \<noteq> Copy_interrupt) \<Longrightarrow> copy_loop w fs c evs = (r, c', evs') \<Longrightarrow>
     r = None \<and> set evs \<subseteq> set evs'
     \<and> (\<forall>f \<in> set fs. copy2 w f = Copy_exception \<longrightarrow> Print (Failed_to_copy f) \<in> set evs')
     \<and> (\<forall>f \<in> set fs. copy2 w f = Copy_ok \<longrightarrow> Copy_file f \<in> set evs')"
proof (induction fs arbitrary: c evs)
  case Nil
  then show ?case by simp
next
  case (Cons f fs)
  from Cons.prems(1) have ni: "\<forall>f \<in> set fs. copy2 w f \<noteq> Copy_interrupt" by simp
  show ?case
  proof (cases "copy2 w f")
    case Copy_ok
    with Cons.prems have "copy_loop w fs (c + 1) (evs @ [Copy_file f] @ [Print (Copied_line f)]) = (r, c', evs')"
      by (simp add: copy_file_with_metadata_def)
    from Cons.IH[OF ni this] show ?thesis using Copy_ok by auto
  next
    case Copy_exception
    with Cons.prems have "copy_loop w fs c (evs @ [Print (Failed_to_copy f)]) = (r, c', evs')"
      by (simp add: copy_file_with_metadata_def)
    from Cons.IH[OF ni this] show ?thesis using Copy_exception by auto
  next
    case Copy_interrupt
    with Cons.prems show ?thesis by simp
  qed
qed

lemma copy_loop_raises:
  "copy_loop w fs c evs = (Some e, c', evs') \<Longrightarrow>
     e = KeyboardInterrupt \<and> (\<exists>f \<in> set fs. copy2 w f = Copy_interrupt)"
  by (induction fs arbitrary: c evs)
     (auto simp: copy_file_with_metadata_def split: copy_outcome.splits)

lemma scanner_msgs:
  "m \<in> set (snd (snd (find_git_ignored_files fnm w))) \<Longrightarrow>
     m = Scanning \<or> m = Unreadable_gitignore \<or> (\<exists>q n. m = Skipping_large_file q n)"
proof (cases "gitignore w")
  case (Lines ls)
  assume "m \<in> set (snd (snd (find_git_ignored_files fnm w)))"
  then show ?thesis unfolding find_msgs_set[OF Lines] by blast
qed (auto simp: find_git_ignored_files_def)


subsection \<open>Steps 7 to 10\<close>

lemma final_files_Inr:
  "collect_files fnm w = (Inr (files, skipped, total_size), msgs) \<Longrightarrow> final_files fnm w = files"
  by (simp add: final_files_def)

lemma sync_cases:
  obtains (raise_collect) e msgs where "collect_files fnm w = (Inl e, msgs)"
      "sync_and_report fnm w = (Some e, map Print msgs)"
  | (raise_copy) files skipped total_size msgs e c evs where
      "collect_files fnm w = (Inr (files, skipped, total_size), msgs)"
      "copy_loop w files 0 (map Print msgs) = (Some e, c, evs)"
      "sync_and_report fnm w = (Some e, evs)"
  | (finished) files skipped total_size msgs c evs where
      "collect_files fnm w = (Inr (files, skipped, total_size), msgs)"
      "copy_loop w files 0 (map Print msgs) = (None, c, evs)"
      "sync_and_report fnm w = (None, evs @ report c total_size skipped)"
proof (cases "collect_files fnm w")
  case (Pair res msgs)
  show ?thesis
  proof (cases res)
    case (Inl e)
    with Pair show ?thesis by (intro raise_collect[of e msgs]) (simp_all add: sync_and_report_def)
  next
    case (Inr t)
    obtain files skipped total_size where t: "t = (files, skipped, total_size)" by (cases t) auto
    obtain r c evs where cl: "copy_loop w files 0 (map Print msgs) = (r, c, evs)"
      by (cases "copy_loop w files 0 (map Print msgs)") auto
    show ?thesis
    proof (cases r)
      case None
      with Pair Inr t cl show ?thesis
        by (intro finished[of files skipped total_size msgs c evs]) (simp_all add: sync_and_report_def)
    next
      case (Some e)
      with Pair Inr t cl show ?thesis
        by (intro raise_copy[of files skipped total_size msgs e c evs]) (simp_all add: sync_and_report_def)
    qed
  qed
qed

lemma copied_paths_report [simp]: "copied_paths (report c t s) = []"
  by (simp add: report_def)

lemma sync_copied:
  "\<exists>k. copied_paths (snd (sync_and_report fnm w))
        = filter (\<lambda>p. copy2 w p = Copy_ok) (take k (final_files fnm w))"
proof (cases rule: sync_cases[of fnm w])
  case (raise_collect e msgs)
  then have "copied_paths (snd (sync_and_report fnm w))
        = filter (\<lambda>p. copy2 w p = Copy_ok) (take 0 (final_files fnm w))" by simp
  then show ?thesis by blast
next
  case (raise_copy files skipped total_size msgs e c evs)
  from copy_loop_copied[OF raise_copy(2)] raise_copy(1,3) show ?thesis
    by (simp add: final_files_Inr)
next
  case (finished files skipped total_size msgs c evs)
  from copy_loop_copied[OF finished(2)] finished(1,3) show ?thesis
    by (simp add: final_files_Inr)
qed

lemma collect_msgs:
  "collect_files fnm w = (res, msgs) \<Longrightarrow> m \<in> set msgs \<Longrightarrow> sync_event (Print m)"
  using scanner_msgs[of m fnm w]
  by (auto simp: collect_files_eq sync_event_def split: sum.splits prod.splits)

lemma sync_events: "e \<in> set (snd (sync_and_report fnm w)) \<Longrightarrow> sync_event e"
proof (cases rule: sync_cases[of fnm w])
  case (raise_collect e' msgs)
  assume "e \<in> set (snd (sync_and_report fnm w))"
  with raise_collect show ?thesis by (auto dest: collect_msgs)
next
  case (raise_copy files skipped total_size msgs e' c evs)
  assume "e \<in> set (snd (sync_and_report fnm w))"
  with raise_copy(3) have "e \<in> set evs" by simp
  from copy_loop_events[OF raise_copy(2) this] show ?thesis
    using collect_msgs[OF raise_copy(1)] by (auto simp: sync_event_def)
next
  case (finished files skipped total_size msgs c evs)
  assume "e \<in> set (snd (sync_and_report fnm w))"
  with finished(3) have "e \<in> set evs \<or> e \<in> set (report c total_size skipped)" by auto
  then show ?thesis
  proof
    assume "e \<in> set evs"
    from copy_loop_events[OF finished(2) this] show ?thesis
      using collect_msgs[OF finished(1)] by (auto simp: sync_event_def)
  next
    assume "e \<in> set (report c total_size skipped)"
    then show ?thesis by (auto simp: report_def sync_event_def split: if_splits)
  qed
qed

lemma sync_raises:
  "fst (sync_and_report fnm w) = Some e \<Longrightarrow>
     (e = OtherError \<and> (\<exists>c \<in> set COMMON_CONFIGS. probe w (path_parts c) = Probe_error))
     \<or> (e = KeyboardInterrupt \<and> (\<exists>f \<in> set (final_files fnm w). copy2 w f = Copy_interrupt))"
proof (cases rule: sync_cases[of fnm w])
  case (raise_collect e' msgs)
  assume "fst (sync_and_report fnm w) = Some e"
  with raise_collect collect_files_Inl[OF raise_collect(1)] show ?thesis by simp
next
  case (raise_copy files skipped total_size msgs e' c evs)
  assume "fst (sync_and_report fnm w) = Some e"
  with raise_copy copy_loop_raises[OF raise_copy(2)] show ?thesis by (simp add: final_files_Inr)
next
  case (finished files skipped total_size msgs c evs)
  assume "fst (sync_and_report fnm w) = Some e"
  with finished show ?thesis by simp
qed

lemma sync_completes:
  assumes "\<forall>p. probe w p \<noteq> Probe_error" "\<forall>p. copy2 w p \<noteq> Copy_interrupt"
  shows "fst (sync_and_report fnm w) = None"
    and "\<forall>f \<in> set (final_files fnm w). copy2 w f = Copy_exception \<longrightarrow>
           Print (Failed_to_copy f) \<in> set (snd (sync_and_report fnm w))"
    and "\<forall>f \<in> set (final_files fnm w). copy2 w f = Copy_ok \<longrightarrow>
           Copy_file f \<in> set (snd (sync_and_report fnm w))"
proof -
  have none: "fst (sync_and_report fnm w) = None"
  proof (cases "fst (sync_and_report fnm w)")
    case (Some e)
    from sync_raises[OF this] assms show ?thesis by auto
  qed simp
  then show "fst (sync_and_report fnm w) = None" .
  from none obtain files skipped total_size msgs c evs where
      d: "collect_files fnm w = (Inr (files, skipped, total_size), msgs)"
      "copy_loop w files 0 (map Print msgs) = (None, c, evs)"
      "sync_and_report fnm w = (None, evs @ report c total_size skipped)"
    by (cases rule: sync_cases[of fnm w]) auto
  have "\<forall>f \<in> set files. copy2 w f \<noteq> Copy_interrupt" using assms(2) by simp
  from copy_loop_completes[OF this d(2)] d(1,3)
  show "\<forall>f \<in> set (final_files fnm w). copy2 w f = Copy_exception \<longrightarrow>
           Print (Failed_to_copy f) \<in> set (snd (sync_and_report fnm w))"
    and "\<forall>f \<in> set (final_files fnm w). copy2 w f = Copy_ok \<longrightarrow>
           Copy_file f \<in> set (snd (sync_and_report fnm w))"
    by (auto simp: final_files_Inr)
qed


subsection \<open>The try statement of main\<close>

lemma create_worktree_events:
  assumes "create_worktree w p b = (r, evs, d)"
  shows "copied_paths evs = []"
    and "Print Worktree_created \<in> set evs \<longleftrightarrow> r = None"
    and "r = None \<Longrightarrow> d"
    and "Print Cleaning_up \<notin> set evs"
  using assms
  by (auto simp: create_worktree_def check_branch_exists_def Let_def
      split: sum.splits prod.splits exn.splits if_splits)

lemma handle_failure_copied:
  "copied_paths (events (handle_failure w p e evs d)) = copied_paths evs"
  by (auto simp: handle_failure_def cleanup_on_failure_def Let_def
      split: sum.splits prod.splits option.splits if_splits)

lemma handle_failure_created:
  "Print Worktree_created \<in> set (events (handle_failure w p e evs d))
     \<longleftrightarrow> Print Worktree_created \<in> set evs"
  by (auto simp: handle_failure_def cleanup_on_failure_def Let_def failure_message_def
      split: sum.splits prod.splits option.splits exn.splits if_splits)

lemma handle_failure_msg:
  "Print (failure_message e) \<in> set (events (handle_failure w p e evs d))"
  "set evs \<subseteq> set (events (handle_failure w p e evs d))"
  by (auto simp: handle_failure_def split: prod.splits option.splits)



lemma try_block_created:
  assumes evs0: "Print Worktree_created \<notin> set evs0" "Print Cleaning_up \<notin> set evs0"
    and created: "Print Worktree_created \<in> set (events (try_block fnm w p b evs0))"
  shows "fst (sync_and_report fnm w) = None \<Longrightarrow>
           ending (try_block fnm w p b evs0) = Exit 0 \<and> on_disk (try_block fnm w p b evs0)
           \<and> Print Cleaning_up \<notin> set (events (try_block fnm w p b evs0))"
    and "fst (sync_and_report fnm w) = Some e \<Longrightarrow>
           \<exists>evs. try_block fnm w p b evs0 = handle_failure w p e evs True"
    and "set (snd (sync_and_report fnm w)) \<subseteq> set (events (try_block fnm w p b evs0))"
proof -
  obtain r evs d where c: "create_worktree w p b = (r, evs, d)"
    by (cases "create_worktree w p b") auto
  obtain r' evs' where s: "sync_and_report fnm w = (r', evs')"
    by (cases "sync_and_report fnm w") auto
  note ce = create_worktree_events[OF c]
  have r: "r = None"
  proof (cases r)
    case (Some x)
    with c have "try_block fnm w p b evs0 = handle_failure w p x (evs0 @ evs) d"
      by (simp add: try_block_def)
    with created have "Print Worktree_created \<in> set (evs0 @ evs)"
      by (simp only: handle_failure_created)
    with evs0(1) ce(2) Some show ?thesis by simp
  qed simp
  with ce have d: "d" by simp
  have nc: "Print Cleaning_up \<notin> set evs'"
    using sync_events[of "Print Cleaning_up" fnm w] s by (auto simp: sync_event_def)
  {
    assume "fst (sync_and_report fnm w) = None"
    with s c r d have "try_block fnm w p b evs0 = \<lparr>ending = Exit 0, events = evs0 @ evs @ evs', on_disk = True\<rparr>"
      by (simp add: try_block_def)
    then show "ending (try_block fnm w p b evs0) = Exit 0 \<and> on_disk (try_block fnm w p b evs0)
           \<and> Print Cleaning_up \<notin> set (events (try_block fnm w p b evs0))"
      using evs0(2) ce(4) nc by simp
  }
  {
    assume "fst (sync_and_report fnm w) = Some e"
    with s c r d have "try_block fnm w p b evs0 = handle_failure w p e (evs0 @ evs @ evs') True"
      by (simp add: try_block_def)
    then show "\<exists>evs. try_block fnm w p b evs0 = handle_failure w p e evs True"
      by blast
  }
  show "set (snd (sync_and_report fnm w)) \<subseteq> set (events (try_block fnm w p b evs0))"
  proof (cases r')
    case None
    with s c r d have "try_block fnm w p b evs0 = \<lparr>ending = Exit 0, events = evs0 @ evs @ evs', on_disk = True\<rparr>"
      by (simp add: try_block_def)
    with s show ?thesis by auto
  next
    case (Some x)
    with s c r d have "try_block fnm w p b evs0 = handle_failure w p x (evs0 @ evs @ evs') True"
      by (simp add: try_block_def)
    with s handle_failure_msg(2)[of "evs0 @ evs @ evs'" w p x True] show ?thesis by auto
  qed
qed

lemma try_block_copied:
  assumes "copied_paths evs0 = []"
  shows "\<exists>k. copied_paths (events (try_block fnm w p b evs0))
           = filter (\<lambda>p. copy2 w p = Copy_ok) (take k (final_files fnm w))"
proof -
  obtain r evs d where c: "create_worktree w p b = (r, evs, d)"
    by (cases "create_worktree w p b") auto
  obtain r' evs' where s: "sync_and_report fnm w = (r', evs')"
    by (cases "sync_and_report fnm w") auto
  note ce = create_worktree_events[OF c]
  from sync_copied[of fnm w] s obtain k where
    k: "copied_paths evs' = filter (\<lambda>p. copy2 w p = Copy_ok) (take k (final_files fnm w))" by auto
  show ?thesis
  proof (cases r)
    case (Some x)
    with c assms ce(1) have "copied_paths (events (try_block fnm w p b evs0))
        = filter (\<lambda>p. copy2 w p = Copy_ok) (take 0 (final_files fnm w))"
      by (simp add: try_block_def handle_failure_copied)
    then show ?thesis by blast
  next
    case None
    with c s assms ce(1) k have "copied_paths (events (try_block fnm w p b evs0))
        = filter (\<lambda>p. copy2 w p = Copy_ok) (take k (final_files fnm w))"
      by (cases r') (simp_all add: try_block_def handle_failure_copied)
    then show ?thesis by blast
  qed
qed

lemma main_shape:
  "(\<exists>p b. main fnm w a br
       = try_block fnm w p b [Git rev_parse_git_dir, Git rev_parse_toplevel, Git (check_ref_format b)])
   \<or> (copied_paths (events (main fnm w a br)) = []
       \<and> Print Worktree_created \<notin> set (events (main fnm w a br)))"
  by (auto simp: main_def Let_def split: sum.splits prod.splits exn.splits bool.splits)

lemma main_created:
  assumes "Print Worktree_created \<in> set (events (main fnm w a br))"
  shows "fst (sync_and_report fnm w) = None \<Longrightarrow>
           ending (main fnm w a br) = Exit 0 \<and> on_disk (main fnm w a br)
           \<and> Print Cleaning_up \<notin> set (events (main fnm w a br))"
    and "fst (sync_and_report fnm w) = Some e \<Longrightarrow>
           \<exists>p evs. main fnm w a br = handle_failure w p e evs True"
    and "set (snd (sync_and_report fnm w)) \<subseteq> set (events (main fnm w a br))"
proof -
  from main_shape[of fnm w a br] assms obtain p b where
    m: "main fnm w a br = try_block fnm w p b [Git rev_parse_git_dir, Git rev_parse_toplevel, Git (check_ref_format b)]"
    by auto
  let ?evs0 = "[Git rev_parse_git_dir, Git rev_parse_toplevel, Git (check_ref_format b)]"
  have e0: "Print Worktree_created \<notin> set ?evs0" "Print Cleaning_up \<notin> set ?evs0" by simp_all
  from assms m have cr: "Print Worktree_created \<in> set (events (try_block fnm w p b ?evs0))" by simp
  note tb = try_block_created[OF e0 cr]
  show "fst (sync_and_report fnm w) = None \<Longrightarrow>
           ending (main fnm w a br) = Exit 0 \<and> on_disk (main fnm w a br)
           \<and> Print Cleaning_up \<notin> set (events (main fnm w a br))"
    using tb(1) m by simp
  show "fst (sync_and_report fnm w) = Some e \<Longrightarrow>
           \<exists>p evs. main fnm w a br = handle_failure w p e evs True"
    using tb(2) m by auto
  show "set (snd (sync_and_report fnm w)) \<subseteq> set (events (main fnm w a br))"
    using tb(3) m by simp
qed

lemma main_copied:
  "\<exists>k. copied_paths (events (main fnm w a br))
           = filter (\<lambda>p. copy2 w p = Copy_ok) (take k (final_files fnm w))"
proof -
  from main_shape[of fnm w a br] show ?thesis
  proof
    assume "\<exists>p b. main fnm w a br
       = try_block fnm w p b [Git rev_parse_git_dir, Git rev_parse_toplevel, Git (check_ref_format b)]"
    then obtain p b where m: "main fnm w a br
       = try_block fnm w p b [Git rev_parse_git_dir, Git rev_parse_toplevel, Git (check_ref_format b)]"
      by blast
    show ?thesis unfolding m by (rule try_block_copied) simp
  next
    assume "copied_paths (events (main fnm w a br)) = []
       \<and> Print Worktree_created \<notin> set (events (main fnm w a br))"
    then have "copied_paths (events (main fnm w a br))
           = filter (\<lambda>p. copy2 w p = Copy_ok) (take 0 (final_files fnm w))" by simp
    then show ?thesis by blast
  qed
qed


subsection \<open>Runs of main\<close>

lemmas main_defs = main_def try_block_def create_worktree_def check_branch_exists_def
  sync_and_report_def collect_files_def find_common_config_files_def COMMON_CONFIGS_def
  copy_file_with_metadata_def handle_failure_def cleanup_on_failure_def failure_message_def
  run_git_command_def validate_branch_name_def check_ref_format_def show_ref_def
  worktree_add_def rev_parse_git_dir_def rev_parse_toplevel_def worktree_path_of_def
  branch_of_def path_str_def report_def size_or_zero_def exit_status_def



lemma sync_reports:
  "fst (sync_and_report fnm w) = None \<Longrightarrow>
     (\<exists>c t. Print (Summary c t) \<in> set (snd (sync_and_report fnm w)))
     \<or> Print No_files_copied \<in> set (snd (sync_and_report fnm w))"
  by (cases rule: sync_cases[of fnm w]) (auto simp: report_def)

lemma final_files_subset:
  "set (final_files fnm w) \<subseteq> set (fst (find_git_ignored_files fnm w)) \<union> path_parts ` set COMMON_CONFIGS"
proof (cases "collect_files fnm w")
  case (Pair res msgs)
  show ?thesis
  proof (cases res)
    case (Inl e)
    with Pair show ?thesis by (simp add: final_files_def)
  next
    case (Inr t)
    obtain files skipped total_size where "t = (files, skipped, total_size)" by (cases t) auto
    with Pair Inr have c: "collect_files fnm w = (Inr (files, skipped, total_size), msgs)" by simp
    from collect_files_Inr(2)[OF c] final_files_Inr[OF c] show ?thesis by auto
  qed
qed

text \<open>
  Claim C1 fails on the code. The scanner skips an ignored \<open>.env\<close> of 11 MiB and says so,
  but the path goes only to the \<open>seen_files\<close> of the scanner, which \<open>main\<close> does not
  get back; find\_common\_config\_files, which has no size test, then finds \<open>.env\<close> and
  \<open>main\<close> copies it.
\<close>

theorem oversized_env_is_copied: "stat_size oversized_env_world [''.env''] = Some 11534336
   \<and> MAX_FILE_SIZE_BYTES < 11534336
   \<and> events (main fnmatch oversized_env_world ''/tmp/wt'' ''feat'') =
       [Git [''rev-parse'', ''--git-dir''], Git [''rev-parse'', ''--show-toplevel''],
        Git [''check-ref-format'', ''--branch'', ''feat''],
        Git [''show-ref'', ''--verify'', ''--quiet'', ''refs/heads/feat''],
        Git [''worktree'', ''add'', ''/tmp/wt'', ''feat''],
        Print Worktree_created, Print Scanning,
        Print (Skipping_large_file [''.env''] 11534336),
        Copy_file [''.env''], Print (Copied_line [''.env'']),
        Print (Summary 1 11534336)]"
  by (simp add: oversized_env_world_def plain_world_def string_defs scan_defs main_defs)







text \<open>
  Claim C7: a copy that fails makes copy\_file\_with\_metadata return \<open>False\<close> after a
  warning; in a run that has created the worktree, where no config probe raises and no
  copy is interrupted, every failed copy of the final list is reported, every other file
  of the list is copied, the report is printed, the run exits with code 0 and the worktree
  stays.
\<close>

theorem copy_failure_not_fatal:
  assumes "Print Worktree_created \<in> set (events (main fnm w wt_arg branch_arg))"
    and "\<forall>p. probe w p \<noteq> Probe_error" and "\<forall>p. copy2 w p \<noteq> Copy_interrupt"
  shows "(\<forall>f. copy2 w f = Copy_exception \<longrightarrow>
             copy_file_with_metadata w f = Inr (False, [Print (Failed_to_copy f)]))
    \<and> (\<forall>f \<in> set (final_files fnm w). copy2 w f = Copy_exception \<longrightarrow>
             Print (Failed_to_copy f) \<in> set (events (main fnm w wt_arg branch_arg)))
    \<and> (\<forall>f \<in> set (final_files fnm w). copy2 w f = Copy_ok \<longrightarrow>
             Copy_file f \<in> set (events (main fnm w wt_arg branch_arg)))
    \<and> ((\<exists>c t. Print (Summary c t) \<in> set (events (main fnm w wt_arg branch_arg)))
         \<or> Print No_files_copied \<in> set (events (main fnm w wt_arg branch_arg)))
    \<and> ending (main fnm w wt_arg branch_arg) = Exit 0
    \<and> on_disk (main fnm w wt_arg branch_arg)
    \<and> Print Cleaning_up \<notin> set (events (main fnm w wt_arg branch_arg))"
proof -
  note sc = sync_completes[OF assms(2,3), of fnm]
  note mc = main_created[OF assms(1)]
  have "\<forall>f. copy2 w f = Copy_exception \<longrightarrow>
             copy_file_with_metadata w f = Inr (False, [Print (Failed_to_copy f)])"
    by (simp add: copy_file_with_metadata_def)
  moreover have "\<forall>f \<in> set (final_files fnm w). copy2 w f = Copy_exception \<longrightarrow>
             Print (Failed_to_copy f) \<in> set (events (main fnm w wt_arg branch_arg))"
    using sc(2) mc(3) by blast
  moreover have "\<forall>f \<in> set (final_files fnm w). copy2 w f = Copy_ok \<longrightarrow>
             Copy_file f \<in> set (events (main fnm w wt_arg branch_arg))"
    using sc(3) mc(3) by blast
  moreover have "(\<exists>c t. Print (Summary c t) \<in> set (events (main fnm w wt_arg branch_arg)))
         \<or> Print No_files_copied \<in> set (events (main fnm w wt_arg branch_arg))"
    using sync_reports[OF sc(1)] mc(3) by blast
  moreover have "ending (main fnm w wt_arg branch_arg) = Exit 0
    \<and> on_disk (main fnm w wt_arg branch_arg)
    \<and> Print Cleaning_up \<notin> set (events (main fnm w wt_arg branch_arg))"
    using mc(1)[OF sc(1)] .
  ultimately show ?thesis by blast
qed

theorem copy_failure_not_fatal_witness:
  "Print Worktree_created \<in> set (events (main fnmatch two_configs_world ''/tmp/wt'' ''feat''))
   \<and> copy2 two_configs_world [''.env.local''] = Copy_exception
   \<and> [''.env.local''] \<in> set (final_files fnmatch two_configs_world)
   \<and> Print (Failed_to_copy [''.env.local'']) \<in> set (events (main fnmatch two_configs_world ''/tmp/wt'' ''feat''))
   \<and> ending (main fnmatch two_configs_world ''/tmp/wt'' ''feat'') = Exit 0"
  using copy_failure_not_fatal [of fnmatch two_configs_world "''/tmp/wt''" "''feat''"]
  by (simp add: two_configs_world_def plain_world_def string_defs scan_defs main_defs final_files_def)



text \<open>
  Claim C9: without ignore file, find\_git\_ignored\_files returns no candidate and no
  skipped directory, whatever the source tree contains, and every file a run copies is one
  of the common config files.
\<close>

theorem no_ignore_file_only_common_configs:
  assumes "gitignore w = Absent"
  shows "find_git_ignored_files fnm w = ([], {}, [])
    \<and> (\<forall>t s. find_git_ignored_files fnm (w\<lparr>tree := t, stat_size := s\<rparr>) = ([], {}, []))
    \<and> set (copied_paths (events (main fnm w wt_arg branch_arg))) \<subseteq> path_parts ` set COMMON_CONFIGS"
proof -
  have f: "find_git_ignored_files fnm w = ([], {}, [])"
    using assms by (simp add: find_git_ignored_files_def)
  from main_copied[of fnm w wt_arg branch_arg] obtain k where
    "copied_paths (events (main fnm w wt_arg branch_arg))
       = filter (\<lambda>p. copy2 w p = Copy_ok) (take k (final_files fnm w))" by blast
  then have "set (copied_paths (events (main fnm w wt_arg branch_arg))) \<subseteq> set (final_files fnm w)"
    by (auto dest: in_set_takeD)
  with final_files_subset[of fnm w] f
  have "set (copied_paths (events (main fnm w wt_arg branch_arg))) \<subseteq> path_parts ` set COMMON_CONFIGS"
    by auto
  then show ?thesis using f assms by (simp add: find_git_ignored_files_def)
qed

theorem no_ignore_file_only_common_configs_witness:
  "gitignore no_gitignore_world = Absent
   \<and> copied_paths (events (main fnmatch no_gitignore_world ''/tmp/wt'' ''feat'')) = [[''.env'']]"
  using no_ignore_file_only_common_configs [of no_gitignore_world fnmatch "''/tmp/wt''" "''feat''"]
  by (simp add: no_gitignore_world_def plain_world_def string_defs scan_defs main_defs)

end
